theory Spec2Isabelle
  imports Main "HOL-Library.Word"
begin

section \<open>IPC messages\<close>

text \<open>
  The message types that \<^verbatim>\<open>gpu_channel.cc\<close> tells apart by their \<^verbatim>\<open>ID\<close>; every
  other type is \<open>OtherMsg\<close> with its number. \<open>IPC_REPLY_ID\<close> is the type of a reply
  to a synchronous message.
\<close>

datatype msg_type =
    GpuCommandBufferMsg_GetStateFast
  | GpuCommandBufferMsg_InsertSyncPoint
  | GpuCommandBufferMsg_RetireSyncPoint
  | GpuCommandBufferMsg_Rescheduled
  | IPC_REPLY_ID
  | OtherMsg nat

text \<open>
  Modelled from the spec: \<^verbatim>\<open>IPC::Message\<close> is not among the sources; a message is
  an "opaque payload + routing identifier + message-type tag + synchronous/asynchronous
  flag". The record has what the channel and the filter read or write of a message:
  \<^verbatim>\<open>routing_id()\<close> (an int32), \<^verbatim>\<open>type()\<close>, \<^verbatim>\<open>is_sync()\<close>, the reply-error bit
  and the parameters.
\<close>

record message =
  routing_id :: int
  msg_type :: msg_type
  is_sync :: bool
  is_reply_error :: bool
  params :: "nat list"

text \<open>
  Modelled from the spec: the "special routing id value" that "denotes control messages
  handled by the channel itself"; \<^verbatim>\<open>ipc_message.h\<close>, which gives it the value of the
  greatest int32, is not among the sources.
\<close>

definition MSG_ROUTING_CONTROL :: int where
  "MSG_ROUTING_CONTROL = 2147483647"

text \<open>
  Modelled from the spec: \<^verbatim>\<open>IPC::SyncMessage::GenerateReply\<close> is the transport's
  "reply-message construction helper keyed to the original message"; its code is not
  among the sources. The reply goes to the routing id of the message it answers.
\<close>

definition GenerateReply :: "message \<Rightarrow> message" where
  "GenerateReply m =
     \<lparr>routing_id = routing_id m, msg_type = IPC_REPLY_ID, is_sync = False,
      is_reply_error = False, params = []\<rparr>"

text \<open>
  Modelled from the spec: \<^verbatim>\<open>IPC::Message::set_reply_error\<close> is not among the sources;
  it marks the reply as the "explicit error reply" of the specification.
\<close>

definition set_reply_error :: "message \<Rightarrow> message" where
  "set_reply_error m = m\<lparr>is_reply_error := True\<rparr>"

text \<open>
  Modelled from the spec: the constructor \<^verbatim>\<open>GpuCommandBufferMsg_Rescheduled(route_id)\<close>
  comes from \<^verbatim>\<open>gpu_messages.h\<close>, which is not among the sources; it makes the
  "continuation message" for a destination, an asynchronous message routed to it.
\<close>

definition Rescheduled_msg :: "int \<Rightarrow> message" where
  "Rescheduled_msg rid =
     \<lparr>routing_id = rid, msg_type = GpuCommandBufferMsg_Rescheduled, is_sync = False,
      is_reply_error = False, params = []\<rparr>"


definition is_get_state_fast :: "message \<Rightarrow> bool" where
  "is_get_state_fast m = (msg_type m = GpuCommandBufferMsg_GetStateFast)"


section \<open>The channel on the main thread\<close>

text \<open>
  Modelled from the spec: a destination ("stub") is an object of
  \<^verbatim>\<open>GpuCommandBufferStub\<close>, whose code is not among the sources. It is "identified by a
  unique routing identifier" and "exposes" \<^verbatim>\<open>IsScheduled()\<close>, \<^verbatim>\<open>IsPreempted()\<close> and
  \<^verbatim>\<open>AddSyncPoint(token)\<close>; the record has what these read and write.
\<close>

record stub =
  route_id :: int
  IsScheduled :: bool
  IsPreempted :: bool
  sync_points :: "32 word list"


text \<open>
  The tasks that \<^verbatim>\<open>GpuChannel\<close> posts to the IO message loop:
  \<^verbatim>\<open>SyncPointMessageFilter::MessageProcessed\<close> with its argument, and
  \<^verbatim>\<open>SyncPointMessageFilter::SetPreemptingFlag\<close>.
\<close>

datatype io_task = Post_MessageProcessed "64 word" | Post_SetPreemptingFlag

text \<open>
  The fields of \<^verbatim>\<open>GpuChannel\<close> that message scheduling uses, named as in the
  source without the trailing underscore. \<open>channel\<close> says whether the pointer
  \<^verbatim>\<open>channel_\<close> is set, \<open>preempting_flag_created\<close> whether
  \<^verbatim>\<open>preempting_flag_\<close> is. Three fields record what the channel hands to its
  collaborators: \<open>posted_HandleMessage\<close> counts the \<^verbatim>\<open>HandleMessage\<close> tasks
  posted to the main message loop and not yet run, \<open>io_tasks\<close> lists the tasks posted
  to the IO loop, and \<open>sent\<close> lists the messages given to \<^verbatim>\<open>channel_->Send\<close>.
\<close>

record channel =
  deferred_messages :: "message list"
  handle_messages_scheduled :: bool
  processed_get_state_fast :: bool
  messages_processed :: "64 word"
  currently_processing_message :: "message option"
  stubs :: "int \<rightharpoonup> stub"
  channel :: bool
  preempting_flag_created :: bool
  posted_HandleMessage :: nat
  io_tasks :: "io_task list"
  sent :: "message list"

text \<open>The constructor's initialiser list; \<^verbatim>\<open>Init\<close> creates the IPC channel.\<close>

definition GpuChannel :: channel where
  "GpuChannel =
     \<lparr>deferred_messages = [], handle_messages_scheduled = False,
      processed_get_state_fast = False, messages_processed = 0,
      currently_processing_message = None, stubs = Map.empty, channel = False,
      preempting_flag_created = False, posted_HandleMessage = 0, io_tasks = [],
      sent = []\<rparr>"

definition Init :: "channel \<Rightarrow> channel" where
  "Init s = s\<lparr>channel := True\<rparr>"

definition GetPreemptionFlag :: "channel \<Rightarrow> channel" where
  "GetPreemptionFlag s =
     (if \<not> preempting_flag_created s
      then s\<lparr>preempting_flag_created := True,
             io_tasks := io_tasks s @ [Post_SetPreemptingFlag]\<rparr>
      else s)"


definition OnScheduled :: "channel \<Rightarrow> channel" where
  "OnScheduled s =
     (if handle_messages_scheduled s then s
      else s\<lparr>posted_HandleMessage := posted_HandleMessage s + 1,
             handle_messages_scheduled := True\<rparr>)"

definition MessageProcessed :: "channel \<Rightarrow> channel" where
  "MessageProcessed s =
     (let s1 = s\<lparr>messages_processed := messages_processed s + 1\<rparr>
      in if preempting_flag_created s1
         then s1\<lparr>io_tasks :=
                  io_tasks s1 @ [Post_MessageProcessed (messages_processed s1)]\<rparr>
         else s1)"

text \<open>\<^verbatim>\<open>GpuChannel::Send\<close>: with no IPC channel the message is deleted.\<close>

definition Send :: "message \<Rightarrow> channel \<Rightarrow> channel" where
  "Send m s = (if \<not> channel s then s else s\<lparr>sent := sent s @ [m]\<rparr>)"

text \<open>
  \<^verbatim>\<open>GpuChannel::RequeueMessage\<close>, which the handler of a message calls while the
  message is dispatched: a copy of the message goes back to the front of the queue and
  the counter of processed messages is taken back by one, which the
  \<^verbatim>\<open>MessageProcessed\<close> that follows the dispatch makes up for. With no message in
  dispatch the source dereferences a null pointer; that is the result \<open>None\<close>.
\<close>

definition RequeueMessage :: "channel \<Rightarrow> channel option" where
  "RequeueMessage s =
     (case currently_processing_message s of
        None \<Rightarrow> None
      | Some m \<Rightarrow>
          Some (s\<lparr>deferred_messages := m # deferred_messages s,
                  messages_processed := messages_processed s - 1,
                  currently_processing_message := None\<rparr>))"

text \<open>
  The loop of \<^verbatim>\<open>OnMessageReceived\<close> that moves \<open>point\<close> from \<open>begin()\<close> over the
  leading GetStateFast messages: the index it stops at.
\<close>

fun skip_get_state_fast :: "message list \<Rightarrow> nat" where
  "skip_get_state_fast [] = 0"
| "skip_get_state_fast (m # ms) =
     (if msg_type m = GpuCommandBufferMsg_GetStateFast then Suc (skip_get_state_fast ms)
      else 0)"

text \<open>\<^verbatim>\<open>deferred_messages.insert(point, m)\<close> for an iterator at index \<open>point\<close>.\<close>

definition insert_at :: "nat \<Rightarrow> message \<Rightarrow> message list \<Rightarrow> message list" where
  "insert_at point m q = take point q @ m # drop point q"

definition OnMessageReceived :: "message \<Rightarrow> channel \<Rightarrow> channel" where
  "OnMessageReceived m s =
     (let (q, message_processed) =
        (if msg_type m = GpuCommandBufferMsg_GetStateFast then
           (if processed_get_state_fast s then
              (let point = skip_get_state_fast (deferred_messages s);
                   point' = (if point \<noteq> length (deferred_messages s) then point + 1
                             else point)
               in (insert_at point' m (deferred_messages s), False))
            else (m # deferred_messages s, False))
         else (deferred_messages s @ [m], False));
          s1 = s\<lparr>deferred_messages := q\<rparr>;
          s2 = (if message_processed then MessageProcessed s1 else s1)
      in OnScheduled s2)"

text \<open>
  What the dispatch of one message shows to \<^verbatim>\<open>HandleMessage\<close>. The handlers of the
  control messages, the router and the stubs' handlers are not part of this model: a
  dispatch is given by the value that \<^verbatim>\<open>OnControlMessageReceived\<close> returns, the value
  that \<^verbatim>\<open>router_.RouteMessage\<close> returns, the value of
  \<^verbatim>\<open>stub->HasUnprocessedCommands()\<close> read after the dispatch, and the calls that the
  handler has made on the channel while it ran: whether it called \<^verbatim>\<open>OnScheduled\<close>
  (\<^verbatim>\<open>OnDestroyCommandBuffer\<close> does so for an unscheduled stub, a stub does when it
  becomes scheduled), and whether it called \<^verbatim>\<open>RequeueMessage\<close> (once at most: the
  call clears \<^verbatim>\<open>currently_processing_message_\<close>, which it requires to be set). The
  changes that a handler makes to the stubs are events of their own in the runs below.
\<close>

record dispatch =
  OnControlMessageReceived_result :: bool
  RouteMessage_result :: bool
  HasUnprocessedCommands :: bool
  handler_OnScheduled :: bool
  handler_RequeueMessage :: bool

text \<open>
  The calls of the handler on a channel that is dispatching a message. In
  \<^verbatim>\<open>HandleMessage\<close> the message in dispatch is set, so \<^verbatim>\<open>RequeueMessage\<close> has a
  result there (\<open>handler_calls_dispatching\<close> below); the channel is left as it is
  otherwise.
\<close>

definition handler_calls :: "dispatch \<Rightarrow> channel \<Rightarrow> channel" where
  "handler_calls d s =
     (let s' = (if handler_OnScheduled d then OnScheduled s else s) in
      if handler_RequeueMessage d
      then (case RequeueMessage s' of None \<Rightarrow> s' | Some s'' \<Rightarrow> s'')
      else s')"

text \<open>The value of \<open>result\<close> in \<^verbatim>\<open>HandleMessage\<close>.\<close>

definition dispatch_result :: "dispatch \<Rightarrow> message \<Rightarrow> bool" where
  "dispatch_result d m =
     (if routing_id m = MSG_ROUTING_CONTROL then OnControlMessageReceived_result d
      else RouteMessage_result d)"

definition HandleMessage :: "dispatch \<Rightarrow> channel \<Rightarrow> channel" where
  "HandleMessage d s0 =
     (let s = s0\<lparr>handle_messages_scheduled := False\<rparr> in
      case deferred_messages s of
        [] \<Rightarrow> s
      | m # rest \<Rightarrow>
          (let stub = stubs s (routing_id m) in
           if (case stub of None \<Rightarrow> False | Some st \<Rightarrow> \<not> IsScheduled st) then s
           else if (case stub of None \<Rightarrow> False | Some st \<Rightarrow> IsPreempted st)
           then OnScheduled s
           else
             (let s1 = s\<lparr>deferred_messages := rest,
                         processed_get_state_fast :=
                           (msg_type m = GpuCommandBufferMsg_GetStateFast),
                         currently_processing_message := Some m\<rparr>;
                  s1' = handler_calls d s1;
                  result = dispatch_result d m;
                  s2 = s1'\<lparr>currently_processing_message := None\<rparr>;
                  (s3, message_processed) =
                    (if \<not> result then
                       ((if is_sync m then Send (set_reply_error (GenerateReply m)) s2
                         else s2), True)
                     else
                       (case stub of
                          None \<Rightarrow> (s2, True)
                        | Some st \<Rightarrow>
                            (if HasUnprocessedCommands d then
                               (s2\<lparr>deferred_messages :=
                                     Rescheduled_msg (route_id st) # deferred_messages s2\<rparr>,
                                False)
                             else (s2, True))));
                  s4 = (if message_processed then MessageProcessed s3 else s3)
              in if deferred_messages s4 \<noteq> [] then OnScheduled s4 else s4)))"


section \<open>Runs of the main thread\<close>

text \<open>
  What happens to a channel on the main thread, one task at a time: the IPC channel (or
  \<^verbatim>\<open>InsertSyncPointOnMainThread\<close>) delivers a message, a stub that became scheduled
  calls \<^verbatim>\<open>OnScheduled\<close>, the message loop runs one posted \<^verbatim>\<open>HandleMessage\<close>
  task (there must be one), the stubs change their state or are created and destroyed,
  another channel asks for the preemption flag.
\<close>

datatype main_event =
    Ev_OnMessageReceived message
  | Ev_OnScheduled
  | Ev_HandleMessage dispatch
  | Ev_stubs "int \<rightharpoonup> stub"
  | Ev_GetPreemptionFlag

fun main_step :: "channel \<Rightarrow> main_event \<Rightarrow> channel" where
  "main_step s (Ev_OnMessageReceived m) = OnMessageReceived m s"
| "main_step s Ev_OnScheduled = OnScheduled s"
| "main_step s (Ev_HandleMessage d) =
     (if posted_HandleMessage s = 0 then s
      else HandleMessage d (s\<lparr>posted_HandleMessage := posted_HandleMessage s - 1\<rparr>))"
| "main_step s (Ev_stubs t) = s\<lparr>stubs := t\<rparr>"
| "main_step s Ev_GetPreemptionFlag = GetPreemptionFlag s"

definition main_run :: "main_event list \<Rightarrow> channel \<Rightarrow> channel" where
  "main_run evs s = foldl main_step s evs"

text \<open>
  The property of a queue that the specification asks for: its two front messages are
  not both GetStateFast while the queue holds a message of another type.
\<close>

definition separated_at_front :: "message list \<Rightarrow> bool" where
  "separated_at_front q =
     (case q of
        a # b # _ \<Rightarrow>
          \<not> (is_get_state_fast a \<and> is_get_state_fast b \<and>
             list_ex (\<lambda>m. \<not> is_get_state_fast m) q)
      | _ \<Rightarrow> True)"


section \<open>The message filter on the IO thread\<close>

definition kVsyncIntervalMs :: int where
  "kVsyncIntervalMs = 17"

definition kPreemptWaitTimeMs :: int where
  "kPreemptWaitTimeMs = 2 * kVsyncIntervalMs"

definition kMaxPreemptTimeMs :: int where
  "kMaxPreemptTimeMs = kVsyncIntervalMs"

definition kStopPreemptThresholdMs :: int where
  "kStopPreemptThresholdMs = kVsyncIntervalMs"

text \<open>
  Modelled from the spec: \<^verbatim>\<open>base::TimeTicks\<close> and \<^verbatim>\<open>base::TimeDelta\<close> are not
  among the sources. The specification measures the "elapsed wait time" of a record
  against thresholds in milliseconds; a point in time and a duration are whole
  microseconds here, and \<^verbatim>\<open>TimeDelta::FromMilliseconds\<close> multiplies by 1000.
\<close>

definition FromMilliseconds :: "int \<Rightarrow> int" where
  "FromMilliseconds ms = ms * 1000"

text \<open>
  Modelled from the spec: \<^verbatim>\<open>TimeDelta::InMilliseconds\<close>, not among the sources, gives
  the whole milliseconds of a duration that the thresholds are compared with: it divides
  the microseconds by 1000 and truncates towards zero, as the division of C++ does.
\<close>

definition InMilliseconds :: "int \<Rightarrow> int" where
  "InMilliseconds delta = sgn delta * (\<bar>delta\<bar> div 1000)"

datatype PreemptionState = IDLE | WAITING | CHECKING | PREEMPTING

record PendingMessage =
  message_number :: "64 word"
  time_received :: int

text \<open>The member functions that the filter gives to \<^verbatim>\<open>timer_.Start\<close>.\<close>

datatype timer_task =
    Task_UpdatePreemptionState
  | Task_TransitionToChecking
  | Task_TransitionToIdle

text \<open>
  Modelled from the spec: \<^verbatim>\<open>base::OneShotTimer\<close> is not among the sources; the
  specification has timers that "transition" the filter "after the interval". A running
  timer is the time \<^verbatim>\<open>Start\<close> was called at, the delay and the task; \<^verbatim>\<open>Start\<close>
  replaces a running timer, \<^verbatim>\<open>Stop\<close> clears it, and the timer is no longer running
  when its task runs.
\<close>

record timer =
  started :: int
  delay :: int
  task :: timer_task

text \<open>Dereferencing \<^verbatim>\<open>preempting_flag_\<close> while it is null.\<close>

datatype fault = NullPreemptingFlag

text \<open>
  The fields of \<^verbatim>\<open>SyncPointMessageFilter\<close>. \<open>preempting_flag\<close> is \<open>None\<close> for a
  null pointer and \<open>Some b\<close> for a \<^verbatim>\<open>gpu::PreemptionFlag\<close> whose value is \<open>b\<close>
  (\<^verbatim>\<open>Set\<close> makes it true, \<^verbatim>\<open>Reset\<close> false). \<open>Now\<close> is the reading of
  \<^verbatim>\<open>base::TimeTicks::Now()\<close>: the clock is read once for each task of the IO thread,
  and all the calls of \<^verbatim>\<open>Now()\<close> made while the task runs give that reading.
  \<open>next_sync_point\<close> is the counter of the sync-point manager, \<open>filter_sent\<close> the
  replies given to \<^verbatim>\<open>channel_->Send\<close>, and \<open>main_tasks\<close> the arguments (routing id
  and sync point) of the \<^verbatim>\<open>InsertSyncPointOnMainThread\<close> tasks posted to the main loop.
\<close>

record message_filter =
  preemption_state :: PreemptionState
  pending_messages :: "PendingMessage list"
  messages_received :: "64 word"
  preempting_flag :: "bool option"
  timer :: "timer option"
  Now :: int
  next_sync_point :: "32 word"
  filter_sent :: "message list"
  main_tasks :: "(int \<times> 32 word) list"

definition SyncPointMessageFilter :: message_filter where
  "SyncPointMessageFilter =
     \<lparr>preemption_state = IDLE, pending_messages = [], messages_received = 0,
      preempting_flag = None, timer = None, Now = 0, next_sync_point = 1,
      filter_sent = [], main_tasks = []\<rparr>"

text \<open>
  Modelled from the spec: \<^verbatim>\<open>OneShotTimer::Start\<close>, not among the sources, starts the
  timer that "transitions" the filter "after the interval"; a timer that runs is replaced.
\<close>

definition timer_Start :: "int \<Rightarrow> timer_task \<Rightarrow> message_filter \<Rightarrow> message_filter" where
  "timer_Start d t s = s\<lparr>timer := Some \<lparr>started = Now s, delay = d, task = t\<rparr>\<rparr>"

text \<open>
  Modelled from the spec: \<^verbatim>\<open>OneShotTimer::Stop\<close>, not among the sources, cancels the
  timer.
\<close>

definition timer_Stop :: "message_filter \<Rightarrow> message_filter" where
  "timer_Stop s = s\<lparr>timer := None\<rparr>"

text \<open>The constructor of \<^verbatim>\<open>PendingMessage\<close>, which reads the clock.\<close>

definition new_PendingMessage :: "64 word \<Rightarrow> message_filter \<Rightarrow> PendingMessage" where
  "new_PendingMessage n s = \<lparr>message_number = n, time_received = Now s\<rparr>"

definition TransitionToWaiting :: "message_filter \<Rightarrow> message_filter" where
  "TransitionToWaiting s =
     timer_Start (FromMilliseconds kPreemptWaitTimeMs) Task_TransitionToChecking
       (s\<lparr>preemption_state := WAITING\<rparr>)"

text \<open>The order in which one call can pass through the states; it bounds the calls below.\<close>

fun state_rank :: "PreemptionState \<Rightarrow> nat" where
  "state_rank WAITING = 0"
| "state_rank IDLE = 1"
| "state_rank PREEMPTING = 2"
| "state_rank CHECKING = 3"

text \<open>
  \<^verbatim>\<open>UpdatePreemptionState\<close>, \<^verbatim>\<open>TransitionToIdle\<close> and
  \<^verbatim>\<open>TransitionToPreempting\<close> call each other. The \<^verbatim>\<open>DCHECK\<close>s of the source are
  compiled out of a release build and are not part of the functions.
\<close>

function UpdatePreemptionState :: "message_filter \<Rightarrow> fault + message_filter"
  and TransitionToIdle :: "message_filter \<Rightarrow> fault + message_filter"
  and TransitionToPreempting :: "message_filter \<Rightarrow> fault + message_filter"
where
  "UpdatePreemptionState s =
     (case preemption_state s of
        IDLE \<Rightarrow>
          (if preempting_flag s \<noteq> None \<and> pending_messages s \<noteq> []
           then Inr (TransitionToWaiting s) else Inr s)
      | WAITING \<Rightarrow> Inr s
      | CHECKING \<Rightarrow>
          (case pending_messages s of
             [] \<Rightarrow> Inr s
           | front # _ \<Rightarrow>
               (let time_elapsed = Now s - time_received front in
                if InMilliseconds time_elapsed < kPreemptWaitTimeMs
                then Inr (timer_Start (FromMilliseconds kPreemptWaitTimeMs - time_elapsed)
                            Task_UpdatePreemptionState s)
                else TransitionToPreempting s))
      | PREEMPTING \<Rightarrow>
          (case pending_messages s of
             [] \<Rightarrow> TransitionToIdle s
           | front # _ \<Rightarrow>
               (let time_elapsed = Now s - time_received front in
                if InMilliseconds time_elapsed < kStopPreemptThresholdMs
                then TransitionToIdle s else Inr s)))"
| "TransitionToIdle s =
     (let s1 = (timer_Stop s)\<lparr>preemption_state := IDLE\<rparr> in
      case preempting_flag s1 of
        None \<Rightarrow> Inl NullPreemptingFlag
      | Some _ \<Rightarrow> UpdatePreemptionState (s1\<lparr>preempting_flag := Some False\<rparr>))"
| "TransitionToPreempting s =
     (let s1 = (timer_Stop s)\<lparr>preemption_state := PREEMPTING\<rparr> in
      case preempting_flag s1 of
        None \<Rightarrow> Inl NullPreemptingFlag
      | Some _ \<Rightarrow>
          UpdatePreemptionState
            (timer_Start (FromMilliseconds kMaxPreemptTimeMs) Task_TransitionToIdle
               (s1\<lparr>preempting_flag := Some True\<rparr>)))"
  by pat_completeness auto

termination
  by (relation "measure (\<lambda>x. case x of
            Inl s \<Rightarrow> 2 * state_rank (preemption_state s)
          | Inr (Inl s) \<Rightarrow> 3
          | Inr (Inr s) \<Rightarrow> 5)")
     (auto simp: timer_Start_def timer_Stop_def)

definition TransitionToChecking :: "message_filter \<Rightarrow> fault + message_filter" where
  "TransitionToChecking s = UpdatePreemptionState (s\<lparr>preemption_state := CHECKING\<rparr>)"

text \<open>
  Modelled from the spec: \<^verbatim>\<open>SyncPointManager::GenerateSyncPoint\<close> is not among the
  sources; it "generates monotonically increasing" 32-bit tokens. It returns the counter
  and advances it.
\<close>

definition GenerateSyncPoint :: "message_filter \<Rightarrow> 32 word \<times> message_filter" where
  "GenerateSyncPoint s = (next_sync_point s, s\<lparr>next_sync_point := next_sync_point s + 1\<rparr>)"

text \<open>
  Modelled from the spec: \<^verbatim>\<open>GpuCommandBufferMsg_InsertSyncPoint::WriteReplyParams\<close>
  comes from \<^verbatim>\<open>gpu_messages.h\<close>, which is not among the sources; with it the filter
  "replies immediately with the new token", which it writes into the reply.
\<close>

definition WriteReplyParams :: "message \<Rightarrow> 32 word \<Rightarrow> message" where
  "WriteReplyParams reply sync_point = reply\<lparr>params := params reply @ [unat sync_point]\<rparr>"

text \<open>
  \<^verbatim>\<open>SyncPointMessageFilter::OnMessageReceived\<close>, with the value it returns (whether the
  filter handled the message).
\<close>

definition Filter_OnMessageReceived :: "message \<Rightarrow> message_filter \<Rightarrow> fault + bool \<times> message_filter" where
  "Filter_OnMessageReceived m s =
     (if msg_type m = GpuCommandBufferMsg_RetireSyncPoint then Inr (True, s)
      else
        (let s1 = s\<lparr>messages_received := messages_received s + 1\<rparr>;
             s2 = (if preempting_flag s1 \<noteq> None
                   then s1\<lparr>pending_messages :=
                            pending_messages s1 @
                              [new_PendingMessage (messages_received s1) s1]\<rparr>
                   else s1)
         in case UpdatePreemptionState s2 of
              Inl e \<Rightarrow> Inl e
            | Inr s3 \<Rightarrow>
                (if msg_type m = GpuCommandBufferMsg_InsertSyncPoint then
                   (let (sync_point, s4) = GenerateSyncPoint s3;
                        reply = WriteReplyParams (GenerateReply m) sync_point;
                        s5 = s4\<lparr>filter_sent := filter_sent s4 @ [reply]\<rparr>;
                        s6 = s5\<lparr>main_tasks :=
                                 main_tasks s5 @ [(routing_id m, sync_point)]\<rparr>
                    in Inr (True, s6))
                 else Inr (False, s3))))"

text \<open>
  The loop of \<^verbatim>\<open>SyncPointMessageFilter::MessageProcessed\<close>: pop while the queue is not
  empty and the number of its front record is at most \<open>n\<close>.
\<close>

fun pop_processed :: "64 word \<Rightarrow> PendingMessage list \<Rightarrow> PendingMessage list" where
  "pop_processed n [] = []"
| "pop_processed n (p # ps) =
     (if message_number p \<le> n then pop_processed n ps else p # ps)"

definition Filter_MessageProcessed :: "64 word \<Rightarrow> message_filter \<Rightarrow> fault + message_filter" where
  "Filter_MessageProcessed n s =
     UpdatePreemptionState
       (s\<lparr>pending_messages := pop_processed n (pending_messages s)\<rparr>)"

definition SetPreemptingFlag :: "bool option \<Rightarrow> message_filter \<Rightarrow> message_filter" where
  "SetPreemptingFlag flag s = s\<lparr>preempting_flag := flag\<rparr>"

fun run_timer_task :: "timer_task \<Rightarrow> message_filter \<Rightarrow> fault + message_filter" where
  "run_timer_task Task_UpdatePreemptionState s = UpdatePreemptionState s"
| "run_timer_task Task_TransitionToChecking s = TransitionToChecking s"
| "run_timer_task Task_TransitionToIdle s = TransitionToIdle s"


section \<open>Runs of the IO thread\<close>

text \<open>
  The tasks of the IO thread that reach the filter, each with the reading of the clock
  when it runs: a message arrives, a posted \<^verbatim>\<open>MessageProcessed\<close> or
  \<^verbatim>\<open>SetPreemptingFlag\<close> task runs (the latter with the new, cleared flag that
  \<^verbatim>\<open>GetPreemptionFlag\<close> made), the timer fires.
\<close>

datatype io_event =
    Io_OnMessageReceived int message
  | Io_MessageProcessed int "64 word"
  | Io_SetPreemptingFlag int
  | Io_timer int

fun event_time :: "io_event \<Rightarrow> int" where
  "event_time (Io_OnMessageReceived t m) = t"
| "event_time (Io_MessageProcessed t n) = t"
| "event_time (Io_SetPreemptingFlag t) = t"
| "event_time (Io_timer t) = t"

fun io_step :: "message_filter \<Rightarrow> io_event \<Rightarrow> fault + message_filter" where
  "io_step s (Io_OnMessageReceived t m) =
     (case Filter_OnMessageReceived m (s\<lparr>Now := t\<rparr>) of
        Inl e \<Rightarrow> Inl e
      | Inr (handled, s') \<Rightarrow> Inr s')"
| "io_step s (Io_MessageProcessed t n) = Filter_MessageProcessed n (s\<lparr>Now := t\<rparr>)"
| "io_step s (Io_SetPreemptingFlag t) = Inr (SetPreemptingFlag (Some False) (s\<lparr>Now := t\<rparr>))"
| "io_step s (Io_timer t) =
     (case timer s of
        None \<Rightarrow> Inr (s\<lparr>Now := t\<rparr>)
      | Some tm \<Rightarrow> run_timer_task (task tm) (timer_Stop (s\<lparr>Now := t\<rparr>)))"

text \<open>
  An event can happen in a state of the filter when its task can have been posted:
  \<^verbatim>\<open>GpuChannel::GetPreemptionFlag\<close> posts \<^verbatim>\<open>SetPreemptingFlag\<close> only while the
  channel has made no flag, so the filter has none yet when the task runs; and only a
  running timer fires.
\<close>

definition enabled :: "message_filter \<Rightarrow> io_event \<Rightarrow> bool" where
  "enabled s ev =
     (case ev of
        Io_SetPreemptingFlag t \<Rightarrow> preempting_flag s = None
      | Io_timer t \<Rightarrow> timer s \<noteq> None
      | _ \<Rightarrow> True)"

text \<open>
  An event is on time when the clock has not gone back and no running timer is overdue:
  the timer fires exactly when its delay has passed, and every other task runs no later.
\<close>

definition on_time :: "message_filter \<Rightarrow> io_event \<Rightarrow> bool" where
  "on_time s ev =
     (Now s \<le> event_time ev \<and>
      (case timer s of
         None \<Rightarrow> True
       | Some tm \<Rightarrow>
           (case ev of
              Io_timer t \<Rightarrow> t = started tm + delay tm
            | _ \<Rightarrow> event_time ev \<le> started tm + delay tm)))"

text \<open>
  A run of the filter with an observer beside it, which notes since when the filter has
  been in the state PREEMPTING without a break. A run stops at a fault, and at an event
  that is not enabled or not on time.
\<close>

record observed =
  the_filter :: message_filter
  preempting_since :: "int option"

datatype stop = Fault fault | Not_admissible

definition observe :: "observed \<Rightarrow> message_filter \<Rightarrow> observed" where
  "observe ob s' =
     \<lparr>the_filter = s',
      preempting_since =
        (if preemption_state s' = PREEMPTING
         then (if preemption_state (the_filter ob) = PREEMPTING then preempting_since ob
               else Some (Now s'))
         else None)\<rparr>"

fun io_run :: "io_event list \<Rightarrow> observed \<Rightarrow> stop + observed" where
  "io_run [] ob = Inr ob"
| "io_run (ev # evs) ob =
     (if \<not> (enabled (the_filter ob) ev \<and> on_time (the_filter ob) ev) then Inl Not_admissible
      else case io_step (the_filter ob) ev of
             Inl e \<Rightarrow> Inl (Fault e)
           | Inr s' \<Rightarrow> io_run evs (observe ob s'))"

definition start :: observed where
  "start = \<lparr>the_filter = SyncPointMessageFilter, preempting_since = None\<rparr>"

text \<open>
  The filter after the assignments of \<^verbatim>\<open>TransitionToIdle\<close> and of
  \<^verbatim>\<open>TransitionToPreempting\<close>, before they call \<^verbatim>\<open>UpdatePreemptionState\<close>.
\<close>

definition idle_of :: "message_filter \<Rightarrow> message_filter" where
  "idle_of s = s\<lparr>timer := None, preemption_state := IDLE, preempting_flag := Some False\<rparr>"

definition preempting_of :: "message_filter \<Rightarrow> message_filter" where
  "preempting_of s =
     s\<lparr>preemption_state := PREEMPTING, preempting_flag := Some True,
       timer := Some \<lparr>started = Now s, delay = FromMilliseconds kMaxPreemptTimeMs,
                      task = Task_TransitionToIdle\<rparr>\<rparr>"

text \<open>
  What one call of \<^verbatim>\<open>UpdatePreemptionState\<close> makes of a filter that has a flag, with
  the calls of the transitions worked out (see \<open>Update_updated\<close> below).
\<close>

definition updated :: "message_filter \<Rightarrow> message_filter" where
  "updated s =
     (case preemption_state s of
        IDLE \<Rightarrow> if pending_messages s \<noteq> [] then TransitionToWaiting s else s
      | WAITING \<Rightarrow> s
      | CHECKING \<Rightarrow>
          (case pending_messages s of
             [] \<Rightarrow> s
           | front # _ \<Rightarrow>
               if Now s - time_received front < FromMilliseconds kPreemptWaitTimeMs
               then timer_Start (FromMilliseconds kPreemptWaitTimeMs -
                                   (Now s - time_received front))
                      Task_UpdatePreemptionState s
               else preempting_of s)
      | PREEMPTING \<Rightarrow>
          (case pending_messages s of
             [] \<Rightarrow> idle_of s
           | front # _ \<Rightarrow>
               if Now s - time_received front < FromMilliseconds kStopPreemptThresholdMs
               then TransitionToWaiting (idle_of s) else s))"

text \<open>
  What holds of the observed filter along every run: a filter without a flag is idle
  with no timer; while the filter is PREEMPTING the flag is set, the running timer is
  the one started on entry, for the maximal time and with \<^verbatim>\<open>TransitionToIdle\<close> as its
  task, and that time has not passed.
\<close>

definition preempting_inv :: "observed \<Rightarrow> bool" where
  "preempting_inv ob =
     (let s = the_filter ob in
      (preempting_flag s \<noteq> None \<or> (preemption_state s = IDLE \<and> timer s = None)) \<and>
      (if preemption_state s = PREEMPTING then
         (case preempting_since ob of
            None \<Rightarrow> False
          | Some t0 \<Rightarrow>
              timer s = Some \<lparr>started = t0, delay = FromMilliseconds kMaxPreemptTimeMs,
                               task = Task_TransitionToIdle\<rparr> \<and>
              preempting_flag s = Some True \<and> t0 \<le> Now s \<and>
              Now s \<le> t0 + FromMilliseconds kMaxPreemptTimeMs)
       else preempting_since ob = None))"


section \<open>Sync points on the main thread\<close>







section \<open>Invariant and example values\<close>

text \<open>
  The flag \<^verbatim>\<open>handle_messages_scheduled_\<close> is set exactly when one \<^verbatim>\<open>HandleMessage\<close>
  task waits in the main message loop, and no more than one ever waits.
\<close>

definition one_task :: "channel \<Rightarrow> bool" where
  "one_task s = (posted_HandleMessage s = (if handle_messages_scheduled s then 1 else 0))"

text \<open>Messages and stubs for concrete runs.\<close>

definition GetStateFast_msg :: "int \<Rightarrow> message" where
  "GetStateFast_msg rid =
     \<lparr>routing_id = rid, msg_type = GpuCommandBufferMsg_GetStateFast, is_sync = True,
      is_reply_error = False, params = []\<rparr>"

definition Other_msg :: "nat \<Rightarrow> int \<Rightarrow> bool \<Rightarrow> message" where
  "Other_msg n rid sync =
     \<lparr>routing_id = rid, msg_type = OtherMsg n, is_sync = sync,
      is_reply_error = False, params = []\<rparr>"

definition dispatched :: "bool \<Rightarrow> bool \<Rightarrow> dispatch" where
  "dispatched ok unprocessed =
     \<lparr>OnControlMessageReceived_result = ok, RouteMessage_result = ok,
      HasUnprocessedCommands = unprocessed, handler_OnScheduled = False,
      handler_RequeueMessage = False\<rparr>"

definition a_stub :: "int \<Rightarrow> bool \<Rightarrow> bool \<Rightarrow> stub" where
  "a_stub rid scheduled preempted =
     \<lparr>route_id = rid, IsScheduled = scheduled, IsPreempted = preempted, sync_points = []\<rparr>"


text \<open>
  A filter that is PREEMPTING, and a run that leads to it: the flag is made, a message
  arrives at 10 microseconds, the timer fires after the 34 milliseconds of WAITING and,
  the message being that old and not processed, the filter starts to preempt; a second
  message arrives while it does.
\<close>

definition preempting_example :: message_filter where
  "preempting_example =
     \<lparr>preemption_state = PREEMPTING,
      pending_messages = [\<lparr>message_number = 1, time_received = 10\<rparr>,
                          \<lparr>message_number = 2, time_received = 40000\<rparr>],
      messages_received = 2, preempting_flag = Some True,
      timer = Some \<lparr>started = 34010, delay = 17000, task = Task_TransitionToIdle\<rparr>,
      Now = 40000, next_sync_point = 1, filter_sent = [], main_tasks = []\<rparr>"

definition example_run :: "io_event list" where
  "example_run =
     [Io_SetPreemptingFlag 0, Io_OnMessageReceived 10 (Other_msg 0 1 False),
      Io_timer 34010, Io_OnMessageReceived 40000 (Other_msg 0 1 False)]"

text \<open>A channel with two messages, the first for its stub, and five messages processed.\<close>

definition dispatching_channel :: channel where
  "dispatching_channel =
     GpuChannel\<lparr>deferred_messages := [Other_msg 0 1 False, Other_msg 1 2 False],
                messages_processed := 5, stubs := [1 \<mapsto> a_stub 1 True False]\<rparr>"





section \<open>Facts about the channel\<close>

lemma skip_get_state_fast_takeWhile:
  "skip_get_state_fast q = length (takeWhile is_get_state_fast q)"
  by (induction q) (simp_all add: is_get_state_fast_def)

lemma insert_behind_first_regular:
  "insert_at (if skip_get_state_fast q \<noteq> length q then skip_get_state_fast q + 1
              else skip_get_state_fast q) m q =
   (case dropWhile is_get_state_fast q of
      [] \<Rightarrow> q @ [m]
    | x # rest \<Rightarrow> takeWhile is_get_state_fast q @ x # m # rest)"
proof (cases "dropWhile is_get_state_fast q")
  case Nil
  then have tw: "takeWhile is_get_state_fast q = q"
    by (metis append_Nil2 takeWhile_dropWhile_id)
  have "skip_get_state_fast q = length q"
    by (subst skip_get_state_fast_takeWhile, subst tw, rule refl)
  then show ?thesis by (simp add: insert_at_def Nil)
next
  case (Cons x rest)
  let ?gs = "takeWhile is_get_state_fast q"
  have q: "q = ?gs @ x # rest"
    using Cons by (metis takeWhile_dropWhile_id)
  have len: "skip_get_state_fast q = length ?gs"
    by (simp add: skip_get_state_fast_takeWhile)
  have "length q = length ?gs + Suc (length rest)"
    by (subst q) simp
  then have neq: "length ?gs \<noteq> length q"
    by simp
  have tk: "take (length ?gs + 1) q = ?gs @ [x]"
    by (subst q) simp
  have dr: "drop (length ?gs + 1) q = rest"
    by (subst q) simp
  show ?thesis
    unfolding insert_at_def len Cons using neq tk dr by simp
qed

lemma deferred_OnScheduled [simp]:
  "deferred_messages (OnScheduled s) = deferred_messages s"
  by (simp add: OnScheduled_def)

text \<open>In \<^verbatim>\<open>HandleMessage\<close> the handler finds the message in dispatch set.\<close>

lemma handler_calls_dispatching:
  assumes "currently_processing_message s = Some m"
  shows "handler_calls d s =
     (let s' = (if handler_OnScheduled d then OnScheduled s else s) in
      if handler_RequeueMessage d
      then s'\<lparr>deferred_messages := m # deferred_messages s',
              messages_processed := messages_processed s' - 1,
              currently_processing_message := None\<rparr>
      else s')"
  using assms by (simp add: handler_calls_def RequeueMessage_def OnScheduled_def Let_def)

lemma one_task_OnScheduled: "one_task s \<Longrightarrow> one_task (OnScheduled s)"
  by (simp add: one_task_def OnScheduled_def)

lemma posted_MessageProcessed [simp]:
  "posted_HandleMessage (MessageProcessed s) = posted_HandleMessage s"
  "handle_messages_scheduled (MessageProcessed s) = handle_messages_scheduled s"
  "deferred_messages (MessageProcessed s) = deferred_messages s"
  by (simp_all add: MessageProcessed_def Let_def)

lemma one_task_OnMessageReceived: "one_task s \<Longrightarrow> one_task (OnMessageReceived m s)"
  by (simp add: one_task_def OnMessageReceived_def OnScheduled_def Let_def)

lemma HandleMessage_posts:
  "posted_HandleMessage (HandleMessage d s) =
     posted_HandleMessage s + (if handle_messages_scheduled (HandleMessage d s) then 1 else 0)"
  by (simp add: HandleMessage_def handler_calls_dispatching Let_def OnScheduled_def
      MessageProcessed_def Send_def split: list.splits option.splits)

lemma HandleMessage_scheduled_nonempty:
  "handle_messages_scheduled (HandleMessage d s) \<longrightarrow>
     deferred_messages (HandleMessage d s) \<noteq> [] \<or> handler_OnScheduled d"
  by (simp add: HandleMessage_def handler_calls_dispatching Let_def OnScheduled_def
      MessageProcessed_def Send_def split: list.splits option.splits)

lemma HandleMessage_dequeues_one:
  "length (deferred_messages s) \<le> Suc (length (deferred_messages (HandleMessage d s)))"
  by (simp add: HandleMessage_def handler_calls_dispatching Let_def OnScheduled_def
      MessageProcessed_def Send_def split: list.splits option.splits)

lemma one_task_step: "one_task s \<Longrightarrow> one_task (main_step s ev)"
proof (cases ev)
  case (Ev_HandleMessage d)
  assume inv: "one_task s"
  show ?thesis
  proof (cases "posted_HandleMessage s = 0")
    case True
    with inv Ev_HandleMessage show ?thesis by simp
  next
    case False
    with inv have one: "posted_HandleMessage s = 1"
      by (simp add: one_task_def split: if_splits)
    let ?s = "s\<lparr>posted_HandleMessage := posted_HandleMessage s - 1\<rparr>"
    have "posted_HandleMessage (HandleMessage d ?s) =
            posted_HandleMessage ?s + (if handle_messages_scheduled (HandleMessage d ?s) then 1 else 0)"
      by (rule HandleMessage_posts)
    with one have "one_task (HandleMessage d ?s)"
      by (simp add: one_task_def)
    with False Ev_HandleMessage show ?thesis by simp
  qed
qed (simp_all add: one_task_OnScheduled one_task_OnMessageReceived,
     simp_all add: one_task_def GetPreemptionFlag_def)

lemma one_task_run: "one_task s \<Longrightarrow> one_task (main_run evs s)"
  unfolding main_run_def
  by (induction evs arbitrary: s) (simp_all add: one_task_step)

text \<open>The IPC channel that \<^verbatim>\<open>Init\<close> made stays.\<close>

lemma channel_run: "channel s \<Longrightarrow> channel (main_run evs s)"
  unfolding main_run_def
proof (induction evs arbitrary: s)
  case Nil
  then show ?case by simp
next
  case (Cons ev evs)
  have "channel (main_step s ev)"
  proof (cases ev)
    case (Ev_HandleMessage d)
    with Cons.prems show ?thesis
      by (simp add: HandleMessage_def handler_calls_dispatching Let_def OnScheduled_def
          MessageProcessed_def Send_def split: list.splits option.splits)
  qed (use Cons.prems in \<open>simp_all add: OnMessageReceived_def OnScheduled_def Let_def
        GetPreemptionFlag_def\<close>)
  then show ?case
    using Cons.IH by simp
qed

lemma one_task_initial: "one_task (Init GpuChannel)"
  by (simp add: one_task_def Init_def GpuChannel_def)

lemmas example_defs =
  GetStateFast_msg_def Other_msg_def a_stub_def dispatched_def dispatch_result_def
  MSG_ROUTING_CONTROL_def GpuChannel_def Init_def is_get_state_fast_def


section \<open>Facts about the filter\<close>

lemmas filter_simps =
  UpdatePreemptionState.simps TransitionToIdle.simps TransitionToPreempting.simps

declare filter_simps [simp del]

declare not_None_eq [simp del]

lemma thresholds:
  "kPreemptWaitTimeMs = 34" "kMaxPreemptTimeMs = 17" "kStopPreemptThresholdMs = 17"
  by (simp_all add: kPreemptWaitTimeMs_def kMaxPreemptTimeMs_def kStopPreemptThresholdMs_def
      kVsyncIntervalMs_def)

lemma div_1000_less: "(delta::int) div 1000 < ms \<longleftrightarrow> delta < ms * 1000"
proof -
  have "delta = 1000 * (delta div 1000) + delta mod 1000"
    by simp
  moreover have "0 \<le> delta mod 1000" "delta mod 1000 < 1000"
    by simp_all
  ultimately show ?thesis
    by linarith
qed

lemma InMilliseconds_less:
  assumes "0 < ms"
  shows "InMilliseconds delta < ms \<longleftrightarrow> delta < FromMilliseconds ms"
proof (cases "0 \<le> delta")
  case True
  then have "InMilliseconds delta = delta div 1000"
    by (cases "delta = 0") (simp_all add: InMilliseconds_def)
  then show ?thesis
    by (simp add: FromMilliseconds_def div_1000_less)
next
  case False
  then have "InMilliseconds delta = - (\<bar>delta\<bar> div 1000)"
    by (simp add: InMilliseconds_def)
  moreover have "0 \<le> \<bar>delta\<bar> div 1000"
    by simp
  ultimately have "InMilliseconds delta < ms"
    using assms by linarith
  moreover have "delta < ms * 1000"
    using assms False by linarith
  ultimately show ?thesis
    by (simp add: FromMilliseconds_def)
qed

lemma Update_IDLE:
  "preemption_state s = IDLE \<Longrightarrow>
   UpdatePreemptionState s =
     (if preempting_flag s \<noteq> None \<and> pending_messages s \<noteq> []
      then Inr (TransitionToWaiting s) else Inr s)"
  by (simp add: filter_simps)

lemma Update_WAITING:
  "preemption_state s = WAITING \<Longrightarrow> UpdatePreemptionState s = Inr s"
  by (simp add: filter_simps)

lemma TransitionToIdle_flag:
  "preempting_flag s \<noteq> None \<Longrightarrow>
   TransitionToIdle s = UpdatePreemptionState (idle_of s)"
  by (auto simp add: TransitionToIdle.simps timer_Stop_def idle_of_def Let_def)

lemma TransitionToIdle_result:
  "preempting_flag s \<noteq> None \<Longrightarrow>
   TransitionToIdle s =
     Inr (if pending_messages s \<noteq> [] then TransitionToWaiting (idle_of s) else idle_of s)"
  by (simp add: TransitionToIdle_flag Update_IDLE idle_of_def)

lemma TransitionToPreempting_flag:
  "preempting_flag s \<noteq> None \<Longrightarrow>
   TransitionToPreempting s = UpdatePreemptionState (preempting_of s)"
  by (auto simp add: TransitionToPreempting.simps timer_Stop_def timer_Start_def
      preempting_of_def Let_def)

lemma Update_PREEMPTING:
  "preemption_state s = PREEMPTING \<Longrightarrow>
   UpdatePreemptionState s =
     (case pending_messages s of
        [] \<Rightarrow> TransitionToIdle s
      | front # _ \<Rightarrow>
          if Now s - time_received front < FromMilliseconds kStopPreemptThresholdMs
          then TransitionToIdle s else Inr s)"
  by (subst UpdatePreemptionState.simps)
     (simp add: Let_def InMilliseconds_less thresholds split: list.splits)

lemma Update_CHECKING:
  "preemption_state s = CHECKING \<Longrightarrow>
   UpdatePreemptionState s =
     (case pending_messages s of
        [] \<Rightarrow> Inr s
      | front # _ \<Rightarrow>
          if Now s - time_received front < FromMilliseconds kPreemptWaitTimeMs
          then Inr (timer_Start (FromMilliseconds kPreemptWaitTimeMs -
                                  (Now s - time_received front))
                      Task_UpdatePreemptionState s)
          else TransitionToPreempting s)"
  by (subst UpdatePreemptionState.simps)
     (simp add: Let_def InMilliseconds_less thresholds split: list.splits)

lemma idle_of_fields [simp]:
  "preemption_state (idle_of s) = IDLE" "preempting_flag (idle_of s) = Some False"
  "timer (idle_of s) = None" "pending_messages (idle_of s) = pending_messages s"
  "Now (idle_of s) = Now s" "messages_received (idle_of s) = messages_received s"
  "next_sync_point (idle_of s) = next_sync_point s" "filter_sent (idle_of s) = filter_sent s"
  "main_tasks (idle_of s) = main_tasks s"
  by (simp_all add: idle_of_def)

lemma preempting_of_fields [simp]:
  "preemption_state (preempting_of s) = PREEMPTING"
  "preempting_flag (preempting_of s) = Some True"
  "timer (preempting_of s) =
     Some \<lparr>started = Now s, delay = FromMilliseconds kMaxPreemptTimeMs,
           task = Task_TransitionToIdle\<rparr>"
  "pending_messages (preempting_of s) = pending_messages s"
  "Now (preempting_of s) = Now s" "messages_received (preempting_of s) = messages_received s"
  "next_sync_point (preempting_of s) = next_sync_point s"
  "filter_sent (preempting_of s) = filter_sent s" "main_tasks (preempting_of s) = main_tasks s"
  by (simp_all add: preempting_of_def)

lemma TransitionToWaiting_fields [simp]:
  "preemption_state (TransitionToWaiting s) = WAITING"
  "preempting_flag (TransitionToWaiting s) = preempting_flag s"
  "timer (TransitionToWaiting s) =
     Some \<lparr>started = Now s, delay = FromMilliseconds kPreemptWaitTimeMs,
           task = Task_TransitionToChecking\<rparr>"
  "pending_messages (TransitionToWaiting s) = pending_messages s"
  "Now (TransitionToWaiting s) = Now s"
  "messages_received (TransitionToWaiting s) = messages_received s"
  "next_sync_point (TransitionToWaiting s) = next_sync_point s"
  "filter_sent (TransitionToWaiting s) = filter_sent s"
  "main_tasks (TransitionToWaiting s) = main_tasks s"
  by (simp_all add: TransitionToWaiting_def timer_Start_def)

lemma timer_Start_fields [simp]:
  "preemption_state (timer_Start d t s) = preemption_state s"
  "preempting_flag (timer_Start d t s) = preempting_flag s"
  "timer (timer_Start d t s) = Some \<lparr>started = Now s, delay = d, task = t\<rparr>"
  "pending_messages (timer_Start d t s) = pending_messages s"
  "Now (timer_Start d t s) = Now s"
  "messages_received (timer_Start d t s) = messages_received s"
  "next_sync_point (timer_Start d t s) = next_sync_point s"
  "filter_sent (timer_Start d t s) = filter_sent s"
  "main_tasks (timer_Start d t s) = main_tasks s"
  by (simp_all add: timer_Start_def)

lemma Update_preempting_of:
  assumes "pending_messages s = front # rest"
    and "\<not> Now s - time_received front < FromMilliseconds kPreemptWaitTimeMs"
  shows "UpdatePreemptionState (preempting_of s) = Inr (preempting_of s)"
proof -
  have "FromMilliseconds kStopPreemptThresholdMs \<le> FromMilliseconds kPreemptWaitTimeMs"
    by (simp add: FromMilliseconds_def thresholds)
  with assms(2)
  have "\<not> Now s - time_received front < FromMilliseconds kStopPreemptThresholdMs"
    by linarith
  with assms(1) show ?thesis
    by (simp add: Update_PREEMPTING)
qed

text \<open>
  With a flag no call faults, and \<open>updated\<close> is what \<^verbatim>\<open>UpdatePreemptionState\<close>
  returns.
\<close>

lemma Update_updated:
  assumes "preempting_flag s \<noteq> None"
  shows "UpdatePreemptionState s = Inr (updated s)"
proof (cases "preemption_state s")
  case IDLE
  with assms show ?thesis by (simp add: Update_IDLE updated_def)
next
  case WAITING
  then show ?thesis by (simp add: Update_WAITING updated_def)
next
  case CHECKING
  show ?thesis
  proof (cases "pending_messages s")
    case Nil
    with CHECKING show ?thesis by (simp add: Update_CHECKING updated_def)
  next
    case (Cons front rest)
    show ?thesis
    proof (cases "Now s - time_received front < FromMilliseconds kPreemptWaitTimeMs")
      case True
      with CHECKING Cons show ?thesis by (simp add: Update_CHECKING updated_def)
    next
      case False
      with Cons have "UpdatePreemptionState (preempting_of s) = Inr (preempting_of s)"
        by (rule Update_preempting_of)
      with CHECKING Cons False assms show ?thesis
        by (simp add: Update_CHECKING updated_def TransitionToPreempting_flag)
    qed
  qed
next
  case PREEMPTING
  with assms show ?thesis
    by (simp add: Update_PREEMPTING updated_def TransitionToIdle_result split: list.splits)
qed

lemma Update_no_flag:
  assumes "preempting_flag s = None" and "preemption_state s = IDLE"
  shows "UpdatePreemptionState s = Inr s"
  using assms by (simp add: Update_IDLE)

lemma updated_fields [simp]:
  "pending_messages (updated s) = pending_messages s"
  "Now (updated s) = Now s"
  "messages_received (updated s) = messages_received s"
  "next_sync_point (updated s) = next_sync_point s"
  "filter_sent (updated s) = filter_sent s"
  "main_tasks (updated s) = main_tasks s"
  by (simp_all add: updated_def split: PreemptionState.splits list.splits)

lemma updated_flag:
  "preempting_flag s \<noteq> None \<Longrightarrow> preempting_flag (updated s) \<noteq> None"
  by (auto simp add: updated_def split: PreemptionState.splits list.splits)

lemma updated_PREEMPTING:
  assumes "preemption_state (updated s) = PREEMPTING"
  shows "(preemption_state s = PREEMPTING \<and> updated s = s) \<or>
         (preemption_state s = CHECKING \<and> updated s = preempting_of s)"
  using assms
  by (auto simp add: updated_def split: PreemptionState.splits list.splits if_splits)

lemma pop_processed_dropWhile:
  "pop_processed n ps = dropWhile (\<lambda>p. message_number p \<le> n) ps"
  by (induction ps) simp_all

lemma OnMessageReceived_flag:
  assumes "preempting_flag s \<noteq> None" and "msg_type m \<noteq> GpuCommandBufferMsg_RetireSyncPoint"
  shows "\<exists>handled s'. Filter_OnMessageReceived m s = Inr (handled, s') \<and>
           messages_received s' = messages_received s + 1 \<and>
           pending_messages s' =
             pending_messages s @
               [\<lparr>message_number = messages_received s + 1, time_received = Now s\<rparr>]"
proof -
  let ?s2 = "s\<lparr>messages_received := messages_received s + 1,
               pending_messages := pending_messages s @
                 [\<lparr>message_number = messages_received s + 1, time_received = Now s\<rparr>]\<rparr>"
  have "preempting_flag ?s2 \<noteq> None"
    using assms(1) by simp
  then have "UpdatePreemptionState ?s2 = Inr (updated ?s2)"
    by (rule Update_updated)
  with assms show ?thesis
    by (auto simp add: Filter_OnMessageReceived_def Let_def new_PendingMessage_def
        GenerateSyncPoint_def)
qed

lemma OnMessageReceived_no_flag:
  assumes "preempting_flag s = None" and "preemption_state s = IDLE"
    and "msg_type m \<noteq> GpuCommandBufferMsg_RetireSyncPoint"
  shows "\<exists>handled s'. Filter_OnMessageReceived m s = Inr (handled, s') \<and>
           messages_received s' = messages_received s + 1 \<and>
           pending_messages s' = pending_messages s"
proof -
  let ?s1 = "s\<lparr>messages_received := messages_received s + 1\<rparr>"
  have "UpdatePreemptionState ?s1 = Inr ?s1"
    using assms by (simp add: Update_no_flag)
  with assms show ?thesis
    by (auto simp add: Filter_OnMessageReceived_def Let_def GenerateSyncPoint_def)
qed

lemma MessageProcessed_pops:
  assumes "preempting_flag s \<noteq> None \<or> preemption_state s = IDLE"
  shows "\<exists>s'. Filter_MessageProcessed n s = Inr s' \<and>
           pending_messages s' = dropWhile (\<lambda>p. message_number p \<le> n) (pending_messages s)"
proof (cases "preempting_flag s")
  case None
  with assms have "preemption_state s = IDLE" by simp
  with None show ?thesis
    by (simp add: Filter_MessageProcessed_def Update_IDLE pop_processed_dropWhile)
next
  case (Some b)
  let ?s1 = "s\<lparr>pending_messages := pop_processed n (pending_messages s)\<rparr>"
  have "preempting_flag ?s1 \<noteq> None"
    using Some by simp
  then have "UpdatePreemptionState ?s1 = Inr (updated ?s1)"
    by (rule Update_updated)
  then show ?thesis
    by (simp add: Filter_MessageProcessed_def pop_processed_dropWhile)
qed

lemma WAITING_message:
  assumes "preemption_state s = WAITING"
  shows "\<exists>s'. io_step s (Io_OnMessageReceived t m) = Inr s' \<and>
           preemption_state s' = WAITING \<and> timer s' = timer s"
  using assms
  by (auto simp add: Filter_OnMessageReceived_def Let_def Update_WAITING GenerateSyncPoint_def)

lemma WAITING_processed:
  assumes "preemption_state s = WAITING"
  shows "\<exists>s'. io_step s (Io_MessageProcessed t n) = Inr s' \<and>
           preemption_state s' = WAITING \<and> timer s' = timer s"
  using assms by (simp add: Filter_MessageProcessed_def Update_WAITING)

lemma WAITING_timer:
  assumes "timer s = Some tm" and "task tm = Task_TransitionToChecking"
  shows "io_step s (Io_timer t) =
           UpdatePreemptionState (s\<lparr>Now := t, timer := None, preemption_state := CHECKING\<rparr>)"
  using assms by (simp add: TransitionToChecking_def timer_Stop_def)

lemma CHECKING_decides:
  assumes "preemption_state s = CHECKING" and "preempting_flag s \<noteq> None"
    and "pending_messages s = front # rest"
  shows "UpdatePreemptionState s =
     (if InMilliseconds (Now s - time_received front) < kPreemptWaitTimeMs
      then Inr (s\<lparr>timer := Some \<lparr>started = Now s,
                     delay = FromMilliseconds kPreemptWaitTimeMs -
                               (Now s - time_received front),
                     task = Task_UpdatePreemptionState\<rparr>\<rparr>)
      else Inr (s\<lparr>preemption_state := PREEMPTING, preempting_flag := Some True,
                  timer := Some \<lparr>started = Now s,
                     delay = FromMilliseconds kMaxPreemptTimeMs,
                     task = Task_TransitionToIdle\<rparr>\<rparr>))"
  using assms Update_updated [of s]
  by (simp add: updated_def InMilliseconds_less thresholds timer_Start_def preempting_of_def)




section \<open>The invariant of the runs of the filter\<close>

lemma preempting_inv_fields:
  assumes "preemption_state s' = preemption_state s''"
    and "preempting_flag s' = preempting_flag s''"
    and "timer s' = timer s''" and "Now s' = Now s''"
  shows "preempting_inv (observe ob s') = preempting_inv (observe ob s'')"
  using assms by (auto simp add: preempting_inv_def observe_def Let_def split: option.splits)

text \<open>The invariant after a call of \<^verbatim>\<open>UpdatePreemptionState\<close> in a filter with a flag.\<close>

lemma inv_updated:
  assumes inv: "preempting_inv ob"
    and state: "preemption_state s1 = preemption_state (the_filter ob)"
    and flag: "preempting_flag s1 = preempting_flag (the_filter ob)"
    and has_flag: "preempting_flag s1 \<noteq> None"
    and tm: "timer s1 = timer (the_filter ob)"
    and now: "Now (the_filter ob) \<le> Now s1"
    and due: "case timer (the_filter ob) of None \<Rightarrow> True
              | Some tm \<Rightarrow> Now s1 \<le> started tm + delay tm"
  shows "preempting_inv (observe ob (updated s1))"
proof (cases "preemption_state (updated s1) = PREEMPTING")
  case False
  with has_flag show ?thesis
    using updated_flag [of s1]
    by (simp add: preempting_inv_def observe_def Let_def)
next
  case True
  from updated_PREEMPTING [OF True] show ?thesis
  proof
    assume stay: "preemption_state s1 = PREEMPTING \<and> updated s1 = s1"
    with state have P: "preemption_state (the_filter ob) = PREEMPTING"
      by simp
    with inv obtain t0 where since: "preempting_since ob = Some t0"
      and timer0: "timer (the_filter ob) =
          Some \<lparr>started = t0, delay = FromMilliseconds kMaxPreemptTimeMs,
                task = Task_TransitionToIdle\<rparr>"
      and set: "preempting_flag (the_filter ob) = Some True"
      and t0: "t0 \<le> Now (the_filter ob)"
      by (auto simp add: preempting_inv_def Let_def split: option.splits)
    from due timer0 have "Now s1 \<le> t0 + FromMilliseconds kMaxPreemptTimeMs"
      by simp
    with stay P since timer0 set t0 now state flag tm show ?thesis
      by (simp add: preempting_inv_def observe_def Let_def)
  next
    assume enter: "preemption_state s1 = CHECKING \<and> updated s1 = preempting_of s1"
    with state have "preemption_state (the_filter ob) \<noteq> PREEMPTING"
      by simp
    moreover have "0 \<le> FromMilliseconds kMaxPreemptTimeMs"
      by (simp add: FromMilliseconds_def thresholds)
    ultimately show ?thesis
      using enter by (simp add: preempting_inv_def observe_def Let_def)
  qed
qed

lemma inv_not_PREEMPTING:
  assumes "preemption_state s' \<noteq> PREEMPTING"
    and "preempting_flag s' \<noteq> None \<or> (preemption_state s' = IDLE \<and> timer s' = None)"
  shows "preempting_inv (observe ob s')"
  using assms by (simp add: preempting_inv_def observe_def Let_def)

lemma inv_message:
  assumes inv: "preempting_inv ob" and ok: "on_time (the_filter ob) (Io_OnMessageReceived t m)"
  shows "\<exists>s'. io_step (the_filter ob) (Io_OnMessageReceived t m) = Inr s' \<and>
           preempting_inv (observe ob s')"
proof (cases "msg_type m = GpuCommandBufferMsg_RetireSyncPoint")
  case True
  let ?s = "the_filter ob"
  have step: "io_step ?s (Io_OnMessageReceived t m) = Inr (?s\<lparr>Now := t\<rparr>)"
    using True by (simp add: Filter_OnMessageReceived_def)
  show ?thesis
  proof (cases "preempting_flag ?s")
    case None
    with inv have "preemption_state ?s = IDLE \<and> timer ?s = None"
      by (simp add: preempting_inv_def Let_def)
    then have "preempting_inv (observe ob (?s\<lparr>Now := t\<rparr>))"
      by (intro inv_not_PREEMPTING) simp_all
    with step show ?thesis by simp
  next
    case (Some b)
    show ?thesis
    proof (cases "preemption_state ?s = PREEMPTING")
      case False
      with Some have "preempting_inv (observe ob (?s\<lparr>Now := t\<rparr>))"
        by (intro inv_not_PREEMPTING) simp_all
      with step show ?thesis by simp
    next
      case True
      with inv ok have "preempting_inv (observe ob (?s\<lparr>Now := t\<rparr>))"
        by (auto simp add: preempting_inv_def observe_def Let_def on_time_def
            split: option.splits)
      with step show ?thesis by simp
    qed
  qed
next
  case False
  let ?s = "the_filter ob"
  show ?thesis
  proof (cases "preempting_flag ?s")
    case None
    with inv have idle: "preemption_state ?s = IDLE" "timer ?s = None"
      by (simp_all add: preempting_inv_def Let_def)
    let ?s1 = "?s\<lparr>Now := t, messages_received := messages_received ?s + 1\<rparr>"
    have "UpdatePreemptionState ?s1 = Inr ?s1"
      using None idle by (simp add: Update_no_flag)
    with False None have "\<exists>s'. io_step ?s (Io_OnMessageReceived t m) = Inr s' \<and>
        preemption_state s' = IDLE \<and> timer s' = None"
      using idle
      by (auto simp add: Filter_OnMessageReceived_def Let_def GenerateSyncPoint_def)
    then obtain s' where step: "io_step ?s (Io_OnMessageReceived t m) = Inr s'"
      and idle': "preemption_state s' = IDLE" "timer s' = None"
      by blast
    from idle' have "preempting_inv (observe ob s')"
      by (intro inv_not_PREEMPTING) simp_all
    with step show ?thesis
      by blast
  next
    case (Some b)
    let ?s2 = "?s\<lparr>Now := t, messages_received := messages_received ?s + 1,
                 pending_messages := pending_messages ?s @
                   [\<lparr>message_number = messages_received ?s + 1, time_received = t\<rparr>]\<rparr>"
    have flag2: "preempting_flag ?s2 \<noteq> None"
      using Some by simp
    then have upd: "UpdatePreemptionState ?s2 = Inr (updated ?s2)"
      by (rule Update_updated)
    have "preempting_inv (observe ob (updated ?s2))"
    proof (rule inv_updated [OF inv])
      show "case timer ?s of None \<Rightarrow> True | Some tm \<Rightarrow> Now ?s2 \<le> started tm + delay tm"
        using ok by (simp add: on_time_def split: option.splits)
      show "Now ?s \<le> Now ?s2"
        using ok by (simp add: on_time_def)
    qed (use flag2 in simp_all)
    moreover have "\<exists>s'. io_step ?s (Io_OnMessageReceived t m) = Inr s' \<and>
        preemption_state s' = preemption_state (updated ?s2) \<and>
        preempting_flag s' = preempting_flag (updated ?s2) \<and>
        timer s' = timer (updated ?s2) \<and> Now s' = Now (updated ?s2)"
      using False Some upd
      by (auto simp add: Filter_OnMessageReceived_def Let_def GenerateSyncPoint_def
          new_PendingMessage_def)
    ultimately show ?thesis
      using preempting_inv_fields by blast
  qed
qed

lemma inv_processed:
  assumes inv: "preempting_inv ob" and ok: "on_time (the_filter ob) (Io_MessageProcessed t n)"
  shows "\<exists>s'. io_step (the_filter ob) (Io_MessageProcessed t n) = Inr s' \<and>
           preempting_inv (observe ob s')"
proof (cases "preempting_flag (the_filter ob)")
  case None
  let ?s = "the_filter ob"
  from None inv have idle: "preemption_state ?s = IDLE" "timer ?s = None"
    by (simp_all add: preempting_inv_def Let_def)
  let ?s1 = "?s\<lparr>Now := t, pending_messages := pop_processed n (pending_messages ?s)\<rparr>"
  have step: "io_step ?s (Io_MessageProcessed t n) = Inr ?s1"
    using None idle by (simp add: Filter_MessageProcessed_def Update_no_flag)
  have "preempting_inv (observe ob ?s1)"
    using idle by (intro inv_not_PREEMPTING) simp_all
  with step show ?thesis by simp
next
  case (Some b)
  let ?s = "the_filter ob"
  let ?s1 = "?s\<lparr>Now := t, pending_messages := pop_processed n (pending_messages ?s)\<rparr>"
  have flag1: "preempting_flag ?s1 \<noteq> None"
    using Some by simp
  then have step: "io_step ?s (Io_MessageProcessed t n) = Inr (updated ?s1)"
    by (simp add: Filter_MessageProcessed_def Update_updated)
  have "preempting_inv (observe ob (updated ?s1))"
  proof (rule inv_updated [OF inv])
    show "case timer ?s of None \<Rightarrow> True | Some tm \<Rightarrow> Now ?s1 \<le> started tm + delay tm"
      using ok by (simp add: on_time_def split: option.splits)
    show "Now ?s \<le> Now ?s1"
      using ok by (simp add: on_time_def)
  qed (use flag1 in simp_all)
  with step show ?thesis by simp
qed

lemma inv_set_flag:
  assumes inv: "preempting_inv ob" and en: "enabled (the_filter ob) (Io_SetPreemptingFlag t)"
  shows "\<exists>s'. io_step (the_filter ob) (Io_SetPreemptingFlag t) = Inr s' \<and>
           preempting_inv (observe ob s')"
proof -
  let ?s = "the_filter ob"
  from en have none: "preempting_flag ?s = None"
    by (simp add: enabled_def)
  with inv have "preemption_state ?s = IDLE"
    by (simp add: preempting_inv_def Let_def)
  then have "preempting_inv (observe ob (SetPreemptingFlag (Some False) (?s\<lparr>Now := t\<rparr>)))"
    by (intro inv_not_PREEMPTING) (simp_all add: SetPreemptingFlag_def)
  then show ?thesis by simp
qed

lemma inv_timer:
  assumes inv: "preempting_inv ob" and en: "enabled (the_filter ob) (Io_timer t)"
    and ok: "on_time (the_filter ob) (Io_timer t)"
  shows "\<exists>s'. io_step (the_filter ob) (Io_timer t) = Inr s' \<and>
           preempting_inv (observe ob s')"
proof -
  let ?s = "the_filter ob"
  from en obtain tm where tm: "timer ?s = Some tm"
    by (auto simp add: enabled_def)
  with inv have flag: "preempting_flag ?s \<noteq> None"
    by (auto simp add: preempting_inv_def Let_def)
  let ?s1 = "timer_Stop (?s\<lparr>Now := t\<rparr>)"
  have step: "io_step ?s (Io_timer t) = run_timer_task (task tm) ?s1"
    using tm by simp
  have flag1: "preempting_flag ?s1 \<noteq> None"
    using flag by (simp add: timer_Stop_def)
  show ?thesis
  proof (cases "task tm")
    case Task_TransitionToIdle
    have "TransitionToIdle ?s1 =
        Inr (if pending_messages ?s1 \<noteq> [] then TransitionToWaiting (idle_of ?s1)
             else idle_of ?s1)"
      using flag1 by (rule TransitionToIdle_result)
    moreover have "preempting_inv
        (observe ob (if pending_messages ?s1 \<noteq> [] then TransitionToWaiting (idle_of ?s1)
                     else idle_of ?s1))"
      by (intro inv_not_PREEMPTING) simp_all
    ultimately show ?thesis
      using step Task_TransitionToIdle by simp
  next
    case Task_TransitionToChecking
    with tm inv have notP: "preemption_state ?s \<noteq> PREEMPTING"
      by (auto simp add: preempting_inv_def Let_def split: option.splits)
    let ?s2 = "?s1\<lparr>preemption_state := CHECKING\<rparr>"
    have flag2: "preempting_flag ?s2 \<noteq> None"
      using flag1 by simp
    then have run: "TransitionToChecking ?s1 = Inr (updated ?s2)"
      by (simp add: TransitionToChecking_def Update_updated)
    have "preempting_inv (observe ob (updated ?s2))"
    proof (cases "preemption_state (updated ?s2) = PREEMPTING")
      case False
      with updated_flag [OF flag2] show ?thesis
        by (intro inv_not_PREEMPTING) simp_all
    next
      case True
      from updated_PREEMPTING [OF True] have "updated ?s2 = preempting_of ?s2"
        by simp
      moreover have "0 \<le> FromMilliseconds kMaxPreemptTimeMs"
        by (simp add: FromMilliseconds_def thresholds)
      ultimately show ?thesis
        using notP by (simp add: preempting_inv_def observe_def Let_def)
    qed
    with run step Task_TransitionToChecking show ?thesis by simp
  next
    case Task_UpdatePreemptionState
    with tm inv have notP: "preemption_state ?s \<noteq> PREEMPTING"
      by (auto simp add: preempting_inv_def Let_def split: option.splits)
    have run: "UpdatePreemptionState ?s1 = Inr (updated ?s1)"
      using flag1 by (rule Update_updated)
    have "preempting_inv (observe ob (updated ?s1))"
    proof (cases "preemption_state (updated ?s1) = PREEMPTING")
      case False
      with updated_flag [OF flag1] show ?thesis
        by (intro inv_not_PREEMPTING) simp_all
    next
      case True
      from updated_PREEMPTING [OF True] notP have "updated ?s1 = preempting_of ?s1"
        by (simp add: timer_Stop_def)
      moreover have "0 \<le> FromMilliseconds kMaxPreemptTimeMs"
        by (simp add: FromMilliseconds_def thresholds)
      ultimately show ?thesis
        using notP by (simp add: preempting_inv_def observe_def Let_def)
    qed
    with run step Task_UpdatePreemptionState show ?thesis by simp
  qed
qed

lemma inv_step:
  assumes "preempting_inv ob" and "enabled (the_filter ob) ev" and "on_time (the_filter ob) ev"
  shows "\<exists>s'. io_step (the_filter ob) ev = Inr s' \<and> preempting_inv (observe ob s')"
  using assms
  by (cases ev) (simp_all only: inv_message inv_processed inv_set_flag inv_timer)

text \<open>No run from a state with the invariant ends in a fault, and the invariant holds after it.\<close>

lemma inv_run:
  assumes "preempting_inv ob"
  shows "case io_run evs ob of
           Inl Not_admissible \<Rightarrow> True
         | Inl (Fault e) \<Rightarrow> False
         | Inr ob' \<Rightarrow> preempting_inv ob'"
  using assms
proof (induction evs arbitrary: ob)
  case Nil
  then show ?case by simp
next
  case (Cons ev evs)
  show ?case
  proof (cases "enabled (the_filter ob) ev \<and> on_time (the_filter ob) ev")
    case False
    then show ?thesis by simp
  next
    case True
    with Cons.prems obtain s' where step: "io_step (the_filter ob) ev = Inr s'"
      and inv': "preempting_inv (observe ob s')"
      using inv_step by blast
    from Cons.IH [OF inv'] True step show ?thesis
      by simp
  qed
qed

lemma inv_start: "preempting_inv start"
  by (simp add: preempting_inv_def start_def SyncPointMessageFilter_def)

text \<open>
  So no run of a new filter faults, and after every run the filter has a flag or is
  IDLE: the states in which \<^verbatim>\<open>UpdatePreemptionState\<close> cannot meet a null flag.
\<close>

lemma run_no_fault: "io_run evs start \<noteq> Inl (Fault e)"
  using inv_run [OF inv_start, of evs]
  by (auto split: sum.splits stop.splits)

lemma run_flag_or_idle:
  assumes "io_run evs start = Inr ob"
  shows "preempting_flag (the_filter ob) \<noteq> None \<or> preemption_state (the_filter ob) = IDLE"
  using inv_run [OF inv_start, of evs] assms
  by (auto simp add: preempting_inv_def Let_def)

lemmas run_defs =
  start_def SyncPointMessageFilter_def enabled_def on_time_def observe_def
  SetPreemptingFlag_def Filter_OnMessageReceived_def Filter_MessageProcessed_def
  TransitionToChecking_def TransitionToWaiting_def timer_Start_def timer_Stop_def
  new_PendingMessage_def Other_msg_def FromMilliseconds_def thresholds
  Update_updated updated_def preempting_of_def idle_of_def Let_def

lemma example_run_result:
  "io_run example_run start =
     Inr \<lparr>the_filter = preempting_example, preempting_since = Some 34010\<rparr>"
  by (simp add: example_run_def preempting_example_def run_defs)


section \<open>Claims\<close>

subsection \<open>C1: GetStateFast messages at the front of the queue\<close>

text \<open>
  A regular message and then two GetStateFast messages arrive at a new channel before any
  is handled. \<^verbatim>\<open>processed_get_state_fast_\<close> is clear, so both GetStateFast messages are
  pushed to the front: they are adjacent there although the queue holds a regular
  message.
\<close>

theorem C1_counterexample:
  "\<not> separated_at_front
       (deferred_messages
          (main_run [Ev_OnMessageReceived (Other_msg 0 2 False),
                     Ev_OnMessageReceived (GetStateFast_msg 1),
                     Ev_OnMessageReceived (GetStateFast_msg 1)]
             (Init GpuChannel)))"
  by (simp add: main_run_def OnMessageReceived_def OnScheduled_def Let_def
      separated_at_front_def example_defs)

text \<open>
  Claim C1, as the code has it. A GetStateFast message that arrives while
  \<^verbatim>\<open>processed_get_state_fast_\<close> is set (the message handled last was a GetStateFast) is
  inserted directly behind the first message of the queue that is not a GetStateFast, or
  at the back when the queue holds no such message. One that arrives while the flag is
  clear is pushed to the very front.
\<close>

theorem GetStateFast_insertion:
  assumes "is_get_state_fast m"
  shows "deferred_messages (OnMessageReceived m s) =
     (if processed_get_state_fast s then
        (case dropWhile is_get_state_fast (deferred_messages s) of
           [] \<Rightarrow> deferred_messages s @ [m]
         | x # rest \<Rightarrow> takeWhile is_get_state_fast (deferred_messages s) @ x # m # rest)
      else m # deferred_messages s)"
proof -
  have "msg_type m = GpuCommandBufferMsg_GetStateFast"
    using assms by (simp add: is_get_state_fast_def)
  then show ?thesis
    by (simp add: OnMessageReceived_def Let_def insert_behind_first_regular)
qed

theorem GetStateFast_insertion_witness:
  "is_get_state_fast (GetStateFast_msg 1) \<and>
   deferred_messages
     (OnMessageReceived (GetStateFast_msg 1)
        (GpuChannel\<lparr>deferred_messages :=
                      [GetStateFast_msg 1, Other_msg 0 2 False, Other_msg 1 2 False],
                    processed_get_state_fast := True\<rparr>)) =
     [GetStateFast_msg 1, Other_msg 0 2 False, GetStateFast_msg 1, Other_msg 1 2 False]"
  using GetStateFast_insertion [of "GetStateFast_msg 1"
      "GpuChannel\<lparr>deferred_messages :=
                    [GetStateFast_msg 1, Other_msg 0 2 False, Other_msg 1 2 False],
                  processed_get_state_fast := True\<rparr>"]
  by (simp add: example_defs)


subsection \<open>C2: every sync point is retired once\<close>





subsection \<open>C3: the time spent PREEMPTING\<close>

text \<open>
  Claim C3. In every run of the filter in which the timer fires on time, whenever the
  filter is PREEMPTING the flag is set and no more than \<^verbatim>\<open>kMaxPreemptTimeMs\<close> (one
  vsync interval) have passed since it entered that state: the timer that runs is the one
  started on entry, with that delay and \<^verbatim>\<open>TransitionToIdle\<close> as its task. When it
  fires, whatever records are pending, \<^verbatim>\<open>TransitionToIdle\<close> puts the filter in the
  state IDLE with the flag cleared; \<^verbatim>\<open>UpdatePreemptionState\<close>, called from that
  state, leaves the flag clear and the filter IDLE, or WAITING if records are pending.
\<close>

theorem preempting_bounded:
  assumes "io_run evs start = Inr ob"
    and "preemption_state (the_filter ob) = PREEMPTING"
  shows "kMaxPreemptTimeMs = kVsyncIntervalMs \<and>
     (\<exists>t0. preempting_since ob = Some t0 \<and>
        Now (the_filter ob) - t0 \<le> FromMilliseconds kMaxPreemptTimeMs \<and>
        preempting_flag (the_filter ob) = Some True \<and>
        timer (the_filter ob) =
          Some \<lparr>started = t0, delay = FromMilliseconds kMaxPreemptTimeMs,
                task = Task_TransitionToIdle\<rparr> \<and>
        io_step (the_filter ob) (Io_timer (t0 + FromMilliseconds kMaxPreemptTimeMs)) =
          UpdatePreemptionState
            ((the_filter ob)
               \<lparr>Now := t0 + FromMilliseconds kMaxPreemptTimeMs, timer := None,
                 preemption_state := IDLE, preempting_flag := Some False\<rparr>) \<and>
        (\<exists>s'. io_step (the_filter ob)
                 (Io_timer (t0 + FromMilliseconds kMaxPreemptTimeMs)) = Inr s' \<and>
              preemption_state s' \<noteq> PREEMPTING \<and> preempting_flag s' = Some False))"
proof -
  let ?s = "the_filter ob"
  from inv_run [OF inv_start, of evs] assms(1) have "preempting_inv ob"
    by simp
  with assms(2) obtain t0 where since: "preempting_since ob = Some t0"
    and tm: "timer ?s = Some \<lparr>started = t0, delay = FromMilliseconds kMaxPreemptTimeMs,
                              task = Task_TransitionToIdle\<rparr>"
    and flag: "preempting_flag ?s = Some True"
    and bound: "Now ?s \<le> t0 + FromMilliseconds kMaxPreemptTimeMs"
    by (auto simp add: preempting_inv_def Let_def split: option.splits)
  let ?s1 = "timer_Stop (?s\<lparr>Now := t0 + FromMilliseconds kMaxPreemptTimeMs\<rparr>)"
  let ?s' = "if pending_messages ?s1 \<noteq> [] then TransitionToWaiting (idle_of ?s1)
             else idle_of ?s1"
  have "preempting_flag ?s1 \<noteq> None"
    using flag by (simp add: timer_Stop_def)
  then have "TransitionToIdle ?s1 = Inr ?s'"
    by (rule TransitionToIdle_result)
  have through_idle: "io_step ?s (Io_timer (t0 + FromMilliseconds kMaxPreemptTimeMs)) =
      UpdatePreemptionState
        (?s\<lparr>Now := t0 + FromMilliseconds kMaxPreemptTimeMs, timer := None,
            preemption_state := IDLE, preempting_flag := Some False\<rparr>)"
    using tm flag by (simp add: TransitionToIdle.simps timer_Stop_def)
  from \<open>TransitionToIdle ?s1 = Inr ?s'\<close> tm
  have "io_step ?s (Io_timer (t0 + FromMilliseconds kMaxPreemptTimeMs)) = Inr ?s'"
    by simp
  moreover have "preemption_state ?s' \<noteq> PREEMPTING" "preempting_flag ?s' = Some False"
    by simp_all
  ultimately have fire: "\<exists>s'. io_step ?s
      (Io_timer (t0 + FromMilliseconds kMaxPreemptTimeMs)) = Inr s' \<and>
      preemption_state s' \<noteq> PREEMPTING \<and> preempting_flag s' = Some False"
    by blast
  have "kMaxPreemptTimeMs = kVsyncIntervalMs"
    by (simp add: kMaxPreemptTimeMs_def)
  moreover from bound have "Now ?s - t0 \<le> FromMilliseconds kMaxPreemptTimeMs"
    by simp
  ultimately show ?thesis
    using since flag tm fire through_idle by blast
qed

theorem preempting_bounded_witness:
  "io_run example_run start =
     Inr \<lparr>the_filter = preempting_example, preempting_since = Some 34010\<rparr> \<and>
   preemption_state preempting_example = PREEMPTING \<and>
   Now preempting_example - 34010 \<le> FromMilliseconds kMaxPreemptTimeMs \<and>
   preempting_flag preempting_example = Some True"
proof -
  have P: "preemption_state
      (the_filter \<lparr>the_filter = preempting_example, preempting_since = Some 34010\<rparr>) =
      PREEMPTING"
    by (simp add: preempting_example_def)
  from preempting_bounded [OF example_run_result P] example_run_result P
  show ?thesis
    by (simp add: thresholds kVsyncIntervalMs_def)
qed


subsection \<open>C4: the records of pending messages\<close>

text \<open>
  A message arrives at a new filter, which has no preemption flag yet: it is counted, but
  no record is pushed.
\<close>

theorem C4_counterexample:
  "Filter_OnMessageReceived (Other_msg 0 1 False) SyncPointMessageFilter =
     Inr (False, SyncPointMessageFilter\<lparr>messages_received := 1\<rparr>) \<and>
   pending_messages (SyncPointMessageFilter\<lparr>messages_received := 1\<rparr>) = []"
  by (simp add: Filter_OnMessageReceived_def SyncPointMessageFilter_def Let_def Update_IDLE
      Other_msg_def)

text \<open>
  Claim C4, as the code has it. In a filter as a run can leave it (it has a flag, or is
  IDLE), \<^verbatim>\<open>OnMessageReceived\<close> counts every message that is not a RetireSyncPoint,
  and, when the filter has a preemption flag, pushes the record of its number and the
  time at the back of the queue; without a flag the queue stays as it is.
  \<^verbatim>\<open>MessageProcessed\<close> pops from the front the records whose number is at most the
  count it is given, up to the first record with a greater number.
\<close>

theorem pending_records:
  assumes "preempting_flag s \<noteq> None \<or> preemption_state s = IDLE"
  shows "(\<exists>handled s'. Filter_OnMessageReceived m s = Inr (handled, s') \<and>
            messages_received s' =
              (if msg_type m = GpuCommandBufferMsg_RetireSyncPoint then messages_received s
               else messages_received s + 1) \<and>
            pending_messages s' =
              (if msg_type m = GpuCommandBufferMsg_RetireSyncPoint \<or> preempting_flag s = None
               then pending_messages s
               else pending_messages s @
                      [\<lparr>message_number = messages_received s + 1,
                        time_received = Now s\<rparr>])) \<and>
         (\<exists>s'. Filter_MessageProcessed n s = Inr s' \<and>
            pending_messages s' =
              dropWhile (\<lambda>p. message_number p \<le> n) (pending_messages s))"
proof -
  have received: "\<exists>handled s'. Filter_OnMessageReceived m s = Inr (handled, s') \<and>
            messages_received s' =
              (if msg_type m = GpuCommandBufferMsg_RetireSyncPoint then messages_received s
               else messages_received s + 1) \<and>
            pending_messages s' =
              (if msg_type m = GpuCommandBufferMsg_RetireSyncPoint \<or> preempting_flag s = None
               then pending_messages s
               else pending_messages s @
                      [\<lparr>message_number = messages_received s + 1,
                        time_received = Now s\<rparr>])"
  proof (cases "msg_type m = GpuCommandBufferMsg_RetireSyncPoint")
    case True
    then show ?thesis by (auto simp add: Filter_OnMessageReceived_def)
  next
    case False
    show ?thesis
    proof (cases "preempting_flag s")
      case None
      with assms have "preemption_state s = IDLE" by simp
      with None False show ?thesis
        using OnMessageReceived_no_flag [of s m] by simp
    next
      case (Some b)
      with False show ?thesis
        using OnMessageReceived_flag [of s m] by simp
    qed
  qed
  from received MessageProcessed_pops [OF assms, of n] show ?thesis
    by (rule conjI)
qed

theorem pending_records_witness:
  "preempting_flag (SetPreemptingFlag (Some False) SyncPointMessageFilter) \<noteq> None \<and>
   Filter_OnMessageReceived (Other_msg 0 1 False)
     (SetPreemptingFlag (Some False) SyncPointMessageFilter) =
     Inr (False,
          SyncPointMessageFilter
            \<lparr>preemption_state := WAITING,
              pending_messages := [\<lparr>message_number = 1, time_received = 0\<rparr>],
              messages_received := 1,
              preempting_flag := Some False,
              timer := Some \<lparr>started = 0, delay = 34000,
                              task = Task_TransitionToChecking\<rparr>\<rparr>) \<and>
   (\<exists>s'. Filter_MessageProcessed 0
            (SetPreemptingFlag (Some False) SyncPointMessageFilter) = Inr s' \<and>
          pending_messages s' = [])"
proof -
  let ?s = "SetPreemptingFlag (Some False) SyncPointMessageFilter"
  have flag: "preempting_flag ?s \<noteq> None"
    by (simp add: SetPreemptingFlag_def)
  have received: "Filter_OnMessageReceived (Other_msg 0 1 False) ?s =
     Inr (False,
          SyncPointMessageFilter
            \<lparr>preemption_state := WAITING,
              pending_messages := [\<lparr>message_number = 1, time_received = 0\<rparr>],
              messages_received := 1,
              preempting_flag := Some False,
              timer := Some \<lparr>started = 0, delay = 34000,
                              task = Task_TransitionToChecking\<rparr>\<rparr>)"
    by (simp add: Filter_OnMessageReceived_def SetPreemptingFlag_def
        SyncPointMessageFilter_def Let_def Update_IDLE Other_msg_def new_PendingMessage_def
        TransitionToWaiting_def timer_Start_def FromMilliseconds_def thresholds)
  have "pending_messages ?s = []"
    by (simp add: SetPreemptingFlag_def SyncPointMessageFilter_def)
  with pending_records [of ?s "Other_msg 0 1 False" 0] flag
  have "\<exists>s'. Filter_MessageProcessed 0 ?s = Inr s' \<and> pending_messages s' = []"
    by auto
  with flag received show ?thesis
    by blast
qed


subsection \<open>C5: a destination that is not ready\<close>

text \<open>
  Claim C5. The queue is not empty and its front message routes to an existing stub.
  \<^verbatim>\<open>HandleMessage\<close> makes its tests in order. If the stub is unscheduled, it only
  clears \<^verbatim>\<open>handle_messages_scheduled_\<close> and returns: nothing is dequeued and the queue
  is as it was. Otherwise, if the stub is preempted, it posts one \<^verbatim>\<open>HandleMessage\<close>
  task through \<^verbatim>\<open>OnScheduled\<close> and returns, changing nothing else: the queue is as
  it was.
\<close>

theorem HandleMessage_blocked:
  assumes "deferred_messages s = m # rest"
    and "stubs s (routing_id m) = Some st"
  shows "(\<not> IsScheduled st \<longrightarrow>
            HandleMessage d s = s\<lparr>handle_messages_scheduled := False\<rparr>) \<and>
         (IsScheduled st \<and> IsPreempted st \<longrightarrow>
            HandleMessage d s =
              s\<lparr>posted_HandleMessage := posted_HandleMessage s + 1,
                handle_messages_scheduled := True\<rparr>)"
  using assms
  by (simp add: HandleMessage_def Let_def OnScheduled_def)

theorem HandleMessage_blocked_witness:
  "deferred_messages (GpuChannel\<lparr>deferred_messages := [Other_msg 0 1 False],
                 stubs := [1 \<mapsto> a_stub 1 True True]\<rparr>) = [Other_msg 0 1 False] \<and>
   stubs
     (GpuChannel\<lparr>deferred_messages := [Other_msg 0 1 False],
                 stubs := [1 \<mapsto> a_stub 1 True True]\<rparr>)
     (routing_id (Other_msg 0 1 False)) = Some (a_stub 1 True True) \<and>
   IsScheduled (a_stub 1 True True) \<and> IsPreempted (a_stub 1 True True) \<and>
   HandleMessage (dispatched True False)
     (GpuChannel\<lparr>deferred_messages := [Other_msg 0 1 False],
                 stubs := [1 \<mapsto> a_stub 1 True True]\<rparr>) =
   GpuChannel\<lparr>deferred_messages := [Other_msg 0 1 False],
              stubs := [1 \<mapsto> a_stub 1 True True],
              posted_HandleMessage := 1, handle_messages_scheduled := True\<rparr>"
  using HandleMessage_blocked [of
      "GpuChannel\<lparr>deferred_messages := [Other_msg 0 1 False],
                  stubs := [1 \<mapsto> a_stub 1 True True]\<rparr>"
      "Other_msg 0 1 False" "[]" "a_stub 1 True True"
      "dispatched True False"]
  by (simp add: example_defs)


subsection \<open>C6: a message that cannot be routed\<close>

text \<open>
  Claim C6. The channel has its IPC channel (\<^verbatim>\<open>Init\<close> made it), the front message is
  dispatched (its routing id has no stub, or the stub is scheduled and not preempted),
  and routing returns failure. A synchronous message is answered: exactly one message is
  sent, the reply made for it by \<^verbatim>\<open>GenerateReply\<close> with the error bit set. An
  asynchronous message is answered by nothing. In both cases the message has left the
  queue, unless its handler has put it back with \<^verbatim>\<open>RequeueMessage\<close>.
\<close>

theorem routing_failure_reply:
  assumes "deferred_messages s = m # rest"
    and "case stubs s (routing_id m) of
           None \<Rightarrow> True
         | Some st \<Rightarrow> IsScheduled st \<and> \<not> IsPreempted st"
    and "\<not> dispatch_result d m"
    and "channel s"
  shows "sent (HandleMessage d s) =
           (if is_sync m then sent s @ [set_reply_error (GenerateReply m)] else sent s) \<and>
         is_reply_error (set_reply_error (GenerateReply m)) \<and>
         routing_id (set_reply_error (GenerateReply m)) = routing_id m \<and>
         deferred_messages (HandleMessage d s) =
           (if handler_RequeueMessage d then m # rest else rest)"
  using assms
  by (auto simp add: HandleMessage_def handler_calls_dispatching Let_def OnScheduled_def
      Send_def MessageProcessed_def set_reply_error_def GenerateReply_def
      split: option.splits)

theorem routing_failure_reply_witness:
  "deferred_messages ((Init GpuChannel)\<lparr>deferred_messages := [Other_msg 0 7 True]\<rparr>) =
     [Other_msg 0 7 True] \<and>
   stubs
     ((Init GpuChannel)\<lparr>deferred_messages := [Other_msg 0 7 True]\<rparr>)
     (routing_id (Other_msg 0 7 True)) = None \<and>
   \<not> dispatch_result (dispatched False False) (Other_msg 0 7 True) \<and>
   channel ((Init GpuChannel)\<lparr>deferred_messages := [Other_msg 0 7 True]\<rparr>) \<and>
   is_sync (Other_msg 0 7 True) \<and>
   sent (HandleMessage (dispatched False False)
           ((Init GpuChannel)\<lparr>deferred_messages := [Other_msg 0 7 True]\<rparr>)) =
     [\<lparr>routing_id = 7, msg_type = IPC_REPLY_ID, is_sync = False, is_reply_error = True,
       params = []\<rparr>]"
  using routing_failure_reply [of
      "(Init GpuChannel)\<lparr>deferred_messages := [Other_msg 0 7 True]\<rparr>"
      "Other_msg 0 7 True" "[]"
      "dispatched False False"]
  by (simp add: set_reply_error_def GenerateReply_def example_defs)


subsection \<open>C7: a destination left with unprocessed commands\<close>

text \<open>
  Claim C7. The front message goes to a stub that is scheduled and not preempted, the
  dispatch succeeds, and afterwards the stub has unprocessed commands. Then a Rescheduled
  message for the stub's route id stands at the front of the queue, before the messages
  that the dispatch left there: the rest of the old queue, behind the dispatched message
  itself when its handler has called \<^verbatim>\<open>RequeueMessage\<close>. \<^verbatim>\<open>MessageProcessed\<close> is not
  called: nothing is posted to the IO thread and the counter \<^verbatim>\<open>messages_processed_\<close> is
  not incremented; it keeps its value, or is one less when \<^verbatim>\<open>RequeueMessage\<close> has
  taken it back.
\<close>

theorem unprocessed_commands_rescheduled:
  assumes "deferred_messages s = m # rest"
    and "stubs s (routing_id m) = Some st"
    and "IsScheduled st" and "\<not> IsPreempted st"
    and "dispatch_result d m" and "HasUnprocessedCommands d"
  shows "deferred_messages (HandleMessage d s) =
           Rescheduled_msg (route_id st) #
             (if handler_RequeueMessage d then m # rest else rest) \<and>
         routing_id (Rescheduled_msg (route_id st)) = route_id st \<and>
         msg_type (Rescheduled_msg (route_id st)) = GpuCommandBufferMsg_Rescheduled \<and>
         messages_processed (HandleMessage d s) =
           (if handler_RequeueMessage d then messages_processed s - 1
            else messages_processed s) \<and>
         io_tasks (HandleMessage d s) = io_tasks s"
  using assms
  by (simp add: HandleMessage_def handler_calls_dispatching Let_def OnScheduled_def
      Rescheduled_msg_def)

theorem unprocessed_commands_rescheduled_witness:
  "deferred_messages dispatching_channel = [Other_msg 0 1 False, Other_msg 1 2 False] \<and>
   stubs dispatching_channel (routing_id (Other_msg 0 1 False)) =
     Some (a_stub 1 True False) \<and>
   IsScheduled (a_stub 1 True False) \<and> \<not> IsPreempted (a_stub 1 True False) \<and>
   dispatch_result (dispatched True True) (Other_msg 0 1 False) \<and>
   HasUnprocessedCommands (dispatched True True) \<and>
   deferred_messages (HandleMessage (dispatched True True) dispatching_channel) =
     [Rescheduled_msg 1, Other_msg 1 2 False] \<and>
   messages_processed (HandleMessage (dispatched True True) dispatching_channel) = 5 \<and>
   dispatch_result ((dispatched True True)\<lparr>handler_RequeueMessage := True\<rparr>)
     (Other_msg 0 1 False) \<and>
   HasUnprocessedCommands ((dispatched True True)\<lparr>handler_RequeueMessage := True\<rparr>) \<and>
   deferred_messages
     (HandleMessage ((dispatched True True)\<lparr>handler_RequeueMessage := True\<rparr>)
        dispatching_channel) =
     [Rescheduled_msg 1, Other_msg 0 1 False, Other_msg 1 2 False] \<and>
   messages_processed
     (HandleMessage ((dispatched True True)\<lparr>handler_RequeueMessage := True\<rparr>)
        dispatching_channel) = 4"
  using unprocessed_commands_rescheduled [of dispatching_channel
      "Other_msg 0 1 False" "[Other_msg 1 2 False]" "a_stub 1 True False"
      "dispatched True True"]
    unprocessed_commands_rescheduled [of dispatching_channel
      "Other_msg 0 1 False" "[Other_msg 1 2 False]" "a_stub 1 True False"
      "(dispatched True True)\<lparr>handler_RequeueMessage := True\<rparr>"]
  by (simp add: dispatching_channel_def example_defs)


subsection \<open>C8: WAITING and CHECKING\<close>

text \<open>
  Claim C8. The grace time is two vsync intervals, 34 milliseconds.
  \<^verbatim>\<open>TransitionToWaiting\<close> sets the state WAITING and starts the timer with that delay
  and \<^verbatim>\<open>TransitionToChecking\<close> as its task. While the filter is WAITING,
  \<^verbatim>\<open>UpdatePreemptionState\<close> does nothing: a message that arrives and a
  \<^verbatim>\<open>MessageProcessed\<close> leave the state and the timer alone. The timer that fires puts
  the filter in the state CHECKING and calls \<^verbatim>\<open>UpdatePreemptionState\<close>. In the state
  CHECKING with a pending record: if the front record has waited less than the grace
  time, only the timer is started again, for the grace time less the time waited; if
  not, the filter is PREEMPTING, its flag set and the timer for the maximal time started.
\<close>

theorem waiting_and_checking:
  "kVsyncIntervalMs = 17 \<and> kPreemptWaitTimeMs = 2 * kVsyncIntervalMs \<and>
   FromMilliseconds kPreemptWaitTimeMs = 34000 \<and>
   TransitionToWaiting s =
     s\<lparr>preemption_state := WAITING,
       timer := Some \<lparr>started = Now s, delay = FromMilliseconds kPreemptWaitTimeMs,
                      task = Task_TransitionToChecking\<rparr>\<rparr> \<and>
   (preemption_state s = WAITING \<longrightarrow>
      UpdatePreemptionState s = Inr s \<and>
      (\<exists>s'. io_step s (Io_OnMessageReceived t m) = Inr s' \<and>
            preemption_state s' = WAITING \<and> timer s' = timer s) \<and>
      (\<exists>s'. io_step s (Io_MessageProcessed t n) = Inr s' \<and>
            preemption_state s' = WAITING \<and> timer s' = timer s)) \<and>
   (timer s = Some tm \<and> task tm = Task_TransitionToChecking \<longrightarrow>
      io_step s (Io_timer t) =
        UpdatePreemptionState
          (s\<lparr>Now := t, timer := None, preemption_state := CHECKING\<rparr>)) \<and>
   (preemption_state s = CHECKING \<and> preempting_flag s \<noteq> None \<and>
    pending_messages s = front # rest \<longrightarrow>
      UpdatePreemptionState s =
       (if InMilliseconds (Now s - time_received front) < kPreemptWaitTimeMs
        then Inr (s\<lparr>timer := Some \<lparr>started = Now s,
                       delay = FromMilliseconds kPreemptWaitTimeMs -
                                 (Now s - time_received front),
                       task = Task_UpdatePreemptionState\<rparr>\<rparr>)
        else Inr (s\<lparr>preemption_state := PREEMPTING, preempting_flag := Some True,
                    timer := Some \<lparr>started = Now s,
                       delay = FromMilliseconds kMaxPreemptTimeMs,
                       task = Task_TransitionToIdle\<rparr>\<rparr>)))"
proof -
  have thresholds34: "kVsyncIntervalMs = 17 \<and> kPreemptWaitTimeMs = 2 * kVsyncIntervalMs \<and>
      FromMilliseconds kPreemptWaitTimeMs = 34000"
    by (simp add: kVsyncIntervalMs_def kPreemptWaitTimeMs_def FromMilliseconds_def)
  have waiting: "TransitionToWaiting s =
     s\<lparr>preemption_state := WAITING,
       timer := Some \<lparr>started = Now s, delay = FromMilliseconds kPreemptWaitTimeMs,
                      task = Task_TransitionToChecking\<rparr>\<rparr>"
    by (simp add: TransitionToWaiting_def timer_Start_def)
  show ?thesis
    using thresholds34 waiting WAITING_message [of s t m] WAITING_processed [of s t n]
      WAITING_timer [of s tm t] CHECKING_decides [of s front rest] Update_WAITING [of s]
    by blast
qed

theorem waiting_and_checking_witness:
  "preemption_state (TransitionToWaiting (SetPreemptingFlag (Some False) SyncPointMessageFilter))
     = WAITING \<and>
   timer (TransitionToWaiting (SetPreemptingFlag (Some False) SyncPointMessageFilter)) =
     Some \<lparr>started = 0, delay = 34000, task = Task_TransitionToChecking\<rparr> \<and>
   task \<lparr>started = 0, delay = 34000, task = Task_TransitionToChecking\<rparr> =
     Task_TransitionToChecking \<and>
   io_step (TransitionToWaiting (SetPreemptingFlag (Some False) SyncPointMessageFilter))
     (Io_timer 34000) =
     Inr (SyncPointMessageFilter
            \<lparr>preemption_state := CHECKING, preempting_flag := Some False, Now := 34000\<rparr>) \<and>
   preemption_state (preempting_example\<lparr>preemption_state := CHECKING, Now := 20010\<rparr>) =
     CHECKING \<and>
   preempting_flag (preempting_example\<lparr>preemption_state := CHECKING, Now := 20010\<rparr>) \<noteq>
     None \<and>
   pending_messages (preempting_example\<lparr>preemption_state := CHECKING, Now := 20010\<rparr>) =
     [\<lparr>message_number = 1, time_received = 10\<rparr>,
      \<lparr>message_number = 2, time_received = 40000\<rparr>] \<and>
   UpdatePreemptionState (preempting_example\<lparr>preemption_state := CHECKING, Now := 20010\<rparr>) =
     Inr (preempting_example
            \<lparr>preemption_state := CHECKING, Now := 20010,
              timer := Some \<lparr>started = 20010, delay = 14000,
                              task = Task_UpdatePreemptionState\<rparr>\<rparr>)"
proof -
  let ?w = "TransitionToWaiting (SetPreemptingFlag (Some False) SyncPointMessageFilter)"
  let ?c = "preempting_example\<lparr>preemption_state := CHECKING, Now := 20010\<rparr>"
  have w: "preemption_state ?w = WAITING"
    "timer ?w = Some \<lparr>started = 0, delay = 34000, task = Task_TransitionToChecking\<rparr>"
    by (simp_all add: run_defs)
  have c: "preemption_state ?c = CHECKING" "preempting_flag ?c \<noteq> None"
    "pending_messages ?c = [\<lparr>message_number = 1, time_received = 10\<rparr>,
      \<lparr>message_number = 2, time_received = 40000\<rparr>]"
    by (simp_all add: preempting_example_def)
  have fire: "UpdatePreemptionState
      (?w\<lparr>Now := 34000, timer := None, preemption_state := CHECKING\<rparr>) =
     Inr (SyncPointMessageFilter
            \<lparr>preemption_state := CHECKING, preempting_flag := Some False, Now := 34000\<rparr>)"
    by (simp add: run_defs)
  have less: "InMilliseconds (Now ?c - time_received \<lparr>message_number = 1, time_received = 10\<rparr>)
      < kPreemptWaitTimeMs"
    by (simp add: preempting_example_def InMilliseconds_def thresholds)
  from waiting_and_checking [where s = ?w and t = 34000
      and tm = "\<lparr>started = 0, delay = 34000, task = Task_TransitionToChecking\<rparr>"] w fire
  have A: "io_step ?w (Io_timer 34000) =
     Inr (SyncPointMessageFilter
            \<lparr>preemption_state := CHECKING, preempting_flag := Some False, Now := 34000\<rparr>)"
    by simp
  from waiting_and_checking [where s = ?c
      and front = "\<lparr>message_number = 1, time_received = 10\<rparr>"
      and rest = "[\<lparr>message_number = 2, time_received = 40000\<rparr>]"] c less
  have B: "UpdatePreemptionState ?c =
     Inr (preempting_example
            \<lparr>preemption_state := CHECKING, Now := 20010,
              timer := Some \<lparr>started = 20010, delay = 14000,
                              task = Task_UpdatePreemptionState\<rparr>\<rparr>)"
    by (simp add: preempting_example_def FromMilliseconds_def thresholds)
  from w c A B show ?thesis
    by simp
qed


subsection \<open>C9: leaving PREEMPTING early\<close>

text \<open>
  Claim C9. The stop threshold is one vsync interval. In the state PREEMPTING,
  \<^verbatim>\<open>UpdatePreemptionState\<close> (which every message and every \<^verbatim>\<open>MessageProcessed\<close>
  calls) calls \<^verbatim>\<open>TransitionToIdle\<close> when no record is pending, and when the front
  record has waited less than the threshold; otherwise the filter stays as it is.
  \<^verbatim>\<open>TransitionToIdle\<close> stops the timer, sets the state IDLE and clears the flag; from
  that state it goes on as IDLE does, to WAITING at once if records are pending. So a
  \<^verbatim>\<open>MessageProcessed\<close> that pops the last record leaves the filter IDLE, its flag clear
  and no timer running.
\<close>

theorem preempting_relaxes:
  assumes "preemption_state s = PREEMPTING" and "preempting_flag s \<noteq> None"
  shows "kStopPreemptThresholdMs = kVsyncIntervalMs \<and>
     (pending_messages s = [] \<longrightarrow> UpdatePreemptionState s = TransitionToIdle s) \<and>
     (pending_messages s = front # rest \<longrightarrow>
        UpdatePreemptionState s =
          (if InMilliseconds (Now s - time_received front) < kStopPreemptThresholdMs
           then TransitionToIdle s else Inr s)) \<and>
     TransitionToIdle s =
       UpdatePreemptionState
         (s\<lparr>timer := None, preemption_state := IDLE, preempting_flag := Some False\<rparr>) \<and>
     TransitionToIdle s =
       Inr (if pending_messages s = []
            then s\<lparr>timer := None, preemption_state := IDLE, preempting_flag := Some False\<rparr>
            else TransitionToWaiting
                   (s\<lparr>timer := None, preemption_state := IDLE,
                      preempting_flag := Some False\<rparr>)) \<and>
     (pop_processed n (pending_messages s) = [] \<longrightarrow>
        Filter_MessageProcessed n s =
          Inr (s\<lparr>pending_messages := [], timer := None, preemption_state := IDLE,
                 preempting_flag := Some False\<rparr>))"
proof -
  have stop: "kStopPreemptThresholdMs = kVsyncIntervalMs"
    by (simp add: kStopPreemptThresholdMs_def)
  have update: "UpdatePreemptionState s =
     (case pending_messages s of
        [] \<Rightarrow> TransitionToIdle s
      | front # _ \<Rightarrow>
          if InMilliseconds (Now s - time_received front) < kStopPreemptThresholdMs
          then TransitionToIdle s else Inr s)"
    using assms(1)
    by (simp add: Update_PREEMPTING InMilliseconds_less thresholds split: list.splits)
  have idle: "TransitionToIdle s =
       UpdatePreemptionState
         (s\<lparr>timer := None, preemption_state := IDLE, preempting_flag := Some False\<rparr>)"
    using assms(2) by (simp add: TransitionToIdle_flag idle_of_def)
  have result: "TransitionToIdle s =
       Inr (if pending_messages s = []
            then s\<lparr>timer := None, preemption_state := IDLE, preempting_flag := Some False\<rparr>
            else TransitionToWaiting
                   (s\<lparr>timer := None, preemption_state := IDLE,
                      preempting_flag := Some False\<rparr>))"
    using assms(2) by (simp add: TransitionToIdle_result idle_of_def)
  have processed: "pop_processed n (pending_messages s) = [] \<longrightarrow>
        Filter_MessageProcessed n s =
          Inr (s\<lparr>pending_messages := [], timer := None, preemption_state := IDLE,
                 preempting_flag := Some False\<rparr>)"
    using assms
    by (simp add: Filter_MessageProcessed_def Update_PREEMPTING TransitionToIdle_result
        idle_of_def)
  from stop update idle result processed show ?thesis
    by simp
qed

theorem preempting_relaxes_witness:
  "preemption_state preempting_example = PREEMPTING \<and>
   preempting_flag preempting_example \<noteq> None \<and>
   pop_processed 2 (pending_messages preempting_example) = [] \<and>
   Filter_MessageProcessed 2 preempting_example =
     Inr (preempting_example
            \<lparr>pending_messages := [], timer := None, preemption_state := IDLE,
              preempting_flag := Some False\<rparr>) \<and>
   pending_messages (preempting_example\<lparr>Now := 50000\<rparr>) =
     [\<lparr>message_number = 1, time_received = 10\<rparr>,
      \<lparr>message_number = 2, time_received = 40000\<rparr>] \<and>
   UpdatePreemptionState (preempting_example\<lparr>Now := 50000\<rparr>) =
     Inr (preempting_example\<lparr>Now := 50000\<rparr>) \<and>
   pending_messages
     (preempting_example
        \<lparr>pending_messages := [\<lparr>message_number = 2, time_received = 40000\<rparr>],
          Now := 50000\<rparr>) = [\<lparr>message_number = 2, time_received = 40000\<rparr>] \<and>
   UpdatePreemptionState
     (preempting_example
        \<lparr>pending_messages := [\<lparr>message_number = 2, time_received = 40000\<rparr>],
          Now := 50000\<rparr>) =
     Inr (preempting_example
            \<lparr>pending_messages := [\<lparr>message_number = 2, time_received = 40000\<rparr>],
              Now := 50000, preemption_state := WAITING, preempting_flag := Some False,
              timer := Some \<lparr>started = 50000, delay = 34000,
                              task = Task_TransitionToChecking\<rparr>\<rparr>)"
proof -
  let ?a = "preempting_example\<lparr>Now := 50000\<rparr>"
  let ?b = "preempting_example
        \<lparr>pending_messages := [\<lparr>message_number = 2, time_received = 40000\<rparr>],
          Now := 50000\<rparr>"
  have ex: "preemption_state preempting_example = PREEMPTING"
    "preempting_flag preempting_example \<noteq> None"
    "pop_processed 2 (pending_messages preempting_example) = []"
    by (simp_all add: preempting_example_def)
  have a: "preemption_state ?a = PREEMPTING" "preempting_flag ?a \<noteq> None"
    "pending_messages ?a = [\<lparr>message_number = 1, time_received = 10\<rparr>,
      \<lparr>message_number = 2, time_received = 40000\<rparr>]"
    "\<not> InMilliseconds (Now ?a - time_received \<lparr>message_number = 1, time_received = 10\<rparr>)
        < kStopPreemptThresholdMs"
    by (simp_all add: preempting_example_def InMilliseconds_def thresholds)
  have b: "preemption_state ?b = PREEMPTING" "preempting_flag ?b \<noteq> None"
    "pending_messages ?b = [\<lparr>message_number = 2, time_received = 40000\<rparr>]"
    "InMilliseconds (Now ?b - time_received \<lparr>message_number = 2, time_received = 40000\<rparr>)
        < kStopPreemptThresholdMs"
    by (simp_all add: preempting_example_def InMilliseconds_def thresholds)
  from preempting_relaxes [where s = preempting_example and n = 2] ex
  have A: "Filter_MessageProcessed 2 preempting_example =
     Inr (preempting_example
            \<lparr>pending_messages := [], timer := None, preemption_state := IDLE,
              preempting_flag := Some False\<rparr>)"
    by simp
  from preempting_relaxes [where s = ?a
      and front = "\<lparr>message_number = 1, time_received = 10\<rparr>"
      and rest = "[\<lparr>message_number = 2, time_received = 40000\<rparr>]"] a
  have B: "UpdatePreemptionState ?a = Inr ?a"
    by simp
  note at_b = preempting_relaxes [where s = ?b
      and front = "\<lparr>message_number = 2, time_received = 40000\<rparr>" and rest = "[]",
      OF b(1) b(2)]
  from at_b b(3) have "UpdatePreemptionState ?b =
       (if InMilliseconds (Now ?b - time_received \<lparr>message_number = 2, time_received = 40000\<rparr>)
           < kStopPreemptThresholdMs
        then TransitionToIdle ?b else Inr ?b)"
    by blast
  with b(4) have "UpdatePreemptionState ?b = TransitionToIdle ?b"
    by simp
  moreover from at_b have "TransitionToIdle ?b =
       Inr (if pending_messages ?b = []
            then ?b\<lparr>timer := None, preemption_state := IDLE, preempting_flag := Some False\<rparr>
            else TransitionToWaiting
                   (?b\<lparr>timer := None, preemption_state := IDLE,
                       preempting_flag := Some False\<rparr>))"
    by blast
  ultimately have C0: "UpdatePreemptionState ?b =
     Inr (TransitionToWaiting
            (?b\<lparr>timer := None, preemption_state := IDLE, preempting_flag := Some False\<rparr>))"
    using b(3) by simp
  have "TransitionToWaiting
            (?b\<lparr>timer := None, preemption_state := IDLE, preempting_flag := Some False\<rparr>) =
     preempting_example
            \<lparr>pending_messages := [\<lparr>message_number = 2, time_received = 40000\<rparr>],
              Now := 50000, preemption_state := WAITING, preempting_flag := Some False,
              timer := Some \<lparr>started = 50000, delay = 34000,
                              task = Task_TransitionToChecking\<rparr>\<rparr>"
    by (simp add: TransitionToWaiting_def timer_Start_def FromMilliseconds_def thresholds
        preempting_example_def)
  with C0 have C: "UpdatePreemptionState ?b =
     Inr (preempting_example
            \<lparr>pending_messages := [\<lparr>message_number = 2, time_received = 40000\<rparr>],
              Now := 50000, preemption_state := WAITING, preempting_flag := Some False,
              timer := Some \<lparr>started = 50000, delay = 34000,
                              task = Task_TransitionToChecking\<rparr>\<rparr>)"
    by simp
  from ex a(3) b(3) A B C show ?thesis
    by simp
qed


subsection \<open>C10: one pending HandleMessage task\<close>

text \<open>
  Claim C10. After every run of the main thread from a new channel, at most one
  \<^verbatim>\<open>HandleMessage\<close> task is pending, and one is pending exactly when
  \<^verbatim>\<open>handle_messages_scheduled_\<close> is set. \<^verbatim>\<open>OnScheduled\<close> posts a task only when the
  flag is clear, and sets it. \<^verbatim>\<open>HandleMessage\<close> clears the flag first: on an empty
  queue that is all it does, and in general the flag is set afterwards exactly when a
  task was posted during this call, never more than one. It takes at most one message
  from the queue, and when a task was posted the queue is not empty, unless it was the
  handler of the message that called \<^verbatim>\<open>OnScheduled\<close>.
\<close>

theorem one_HandleMessage_task:
  "posted_HandleMessage (main_run evs (Init GpuChannel)) =
     (if handle_messages_scheduled (main_run evs (Init GpuChannel)) then 1 else 0) \<and>
   OnScheduled s =
     (if handle_messages_scheduled s then s
      else s\<lparr>posted_HandleMessage := posted_HandleMessage s + 1,
             handle_messages_scheduled := True\<rparr>) \<and>
   (deferred_messages s = [] \<longrightarrow>
      HandleMessage d s = s\<lparr>handle_messages_scheduled := False\<rparr>) \<and>
   posted_HandleMessage (HandleMessage d s) =
     posted_HandleMessage s + (if handle_messages_scheduled (HandleMessage d s) then 1 else 0) \<and>
   length (deferred_messages s) \<le> Suc (length (deferred_messages (HandleMessage d s))) \<and>
   (handle_messages_scheduled (HandleMessage d s) \<longrightarrow>
      deferred_messages (HandleMessage d s) \<noteq> [] \<or> handler_OnScheduled d)"
proof -
  have "one_task (main_run evs (Init GpuChannel))"
    by (rule one_task_run [OF one_task_initial])
  then have run: "posted_HandleMessage (main_run evs (Init GpuChannel)) =
     (if handle_messages_scheduled (main_run evs (Init GpuChannel)) then 1 else 0)"
    by (simp add: one_task_def)
  have empty: "deferred_messages s = [] \<longrightarrow>
      HandleMessage d s = s\<lparr>handle_messages_scheduled := False\<rparr>"
    by (simp add: HandleMessage_def)
  show ?thesis
    using run empty HandleMessage_posts [of d s] HandleMessage_dequeues_one [of s d]
      HandleMessage_scheduled_nonempty [of d s]
    by (simp add: OnScheduled_def)
qed

theorem one_HandleMessage_task_witness:
  "deferred_messages GpuChannel = [] \<and>
   HandleMessage (dispatched True False) GpuChannel =
     GpuChannel \<and>
   handle_messages_scheduled
     (HandleMessage (dispatched True False)
        (GpuChannel\<lparr>deferred_messages := [Other_msg 0 1 False, Other_msg 1 2 False]\<rparr>)) \<and>
   deferred_messages
     (HandleMessage (dispatched True False)
        (GpuChannel\<lparr>deferred_messages := [Other_msg 0 1 False, Other_msg 1 2 False]\<rparr>)) =
     [Other_msg 1 2 False] \<and>
   posted_HandleMessage
     (main_run [Ev_OnMessageReceived (Other_msg 0 1 False),
                Ev_OnMessageReceived (Other_msg 1 2 False),
                Ev_HandleMessage (dispatched True False)]
        (Init GpuChannel)) = 1"
  using one_HandleMessage_task [of
      "[Ev_OnMessageReceived (Other_msg 0 1 False),
        Ev_OnMessageReceived (Other_msg 1 2 False),
        Ev_HandleMessage (dispatched True False)]"
      "GpuChannel\<lparr>deferred_messages := [Other_msg 0 1 False, Other_msg 1 2 False]\<rparr>"
      "dispatched True False"]
    one_HandleMessage_task [of "[]" GpuChannel
      "dispatched True False"]
  by (simp add: main_run_def HandleMessage_def handler_calls_def OnMessageReceived_def
      OnScheduled_def MessageProcessed_def Let_def example_defs)

end
